theory Spec2Isabelle
  imports Complex_Main "HOL-Library.Word" "HOL-Library.Log_Nat"
begin

text \<open>
  A model of \<open>compress_photos.py\<close>: the function \<open>compress_images\<close> with its
  enumeration, colour normalisation, resizing, encoding, size accounting, per-file error
  handling and report, followed by the properties of it that the specification states.
\<close>

section \<open>Python strings and POSIX paths\<close>

text \<open>
  The two scripts are Python run on a POSIX system. A \<open>str\<close> is modelled as a
  \<open>string\<close>; file names are the entries that \<open>os.listdir\<close> returns.
\<close>

type_synonym path = string

text \<open>\<open>s.endswith(suffix)\<close>: the last \<open>len(suffix)\<close> characters of \<open>s\<close> are \<open>suffix\<close>.\<close>

definition endswith :: "string \<Rightarrow> string \<Rightarrow> bool" where
  "endswith s sfx \<longleftrightarrow> length sfx \<le> length s \<and> drop (length s - length sfx) s = sfx"

text \<open>\<open>s.endswith(t)\<close> for a tuple \<open>t\<close>: some member of the tuple is a suffix.\<close>

definition endswith_any :: "string \<Rightarrow> string list \<Rightarrow> bool" where
  "endswith_any s sfxs \<longleftrightarrow> list_ex (endswith s) sfxs"

text \<open>\<open>s.rfind(c)\<close>: the highest index of \<open>c\<close> in \<open>s\<close>, or \<open>-1\<close>.\<close>

fun rfind :: "string \<Rightarrow> char \<Rightarrow> int" where
  "rfind [] c = -1"
| "rfind (x # xs) c =
     (let r = rfind xs c in if r \<noteq> -1 then r + 1 else if x = c then 0 else -1)"

text \<open>
  \<open>os.path.splitext\<close> (\<open>genericpath._splitext\<close> with \<open>sep = '/'\<close>, no \<open>altsep\<close>,
  \<open>extsep = '.'\<close>). The loop skips the leading dots of the last path component and
  splits at the last dot as soon as it meets another character.
\<close>

function splitext_loop :: "string \<Rightarrow> nat \<Rightarrow> nat \<Rightarrow> (string \<times> string) option" where
  "splitext_loop p filenameIndex dotIndex =
     (if filenameIndex < dotIndex then
        (if take 1 (drop filenameIndex p) \<noteq> ''.'' then Some (take dotIndex p, drop dotIndex p)
         else splitext_loop p (filenameIndex + 1) dotIndex)
      else None)"
  by pat_completeness auto
termination
  by (relation "measure (\<lambda>(p, filenameIndex, dotIndex). dotIndex - filenameIndex)") auto

definition splitext :: "path \<Rightarrow> string \<times> string" where
  "splitext p =
     (let sepIndex = rfind p (CHR ''/'');
          dotIndex = rfind p (CHR ''.'')
      in if dotIndex > sepIndex then
           (case splitext_loop p (nat (sepIndex + 1)) (nat dotIndex) of
              Some r \<Rightarrow> r
            | None \<Rightarrow> (p, []))
         else (p, []))"

text \<open>\<open>os.path.join(a, b)\<close> of \<open>posixpath\<close>, for two arguments.\<close>

definition path_join :: "path \<Rightarrow> path \<Rightarrow> path" where
  "path_join a b =
     (if take 1 b = ''/'' then b
      else if a = [] \<or> endswith a ''/'' then a @ b
      else a @ ''/'' @ b)"

section \<open>The Enumerator\<close>

text \<open>Line 24 of \<open>compress_photos.py\<close>: the tuple of supported suffixes.\<close>

definition image_extensions :: "string list" where
  "image_extensions = [''.jpg'', ''.jpeg'', ''.png'', ''.JPG'', ''.JPEG'', ''.PNG'']"

text \<open>
  Line 28: \<open>[f for f in os.listdir(input_folder) if f.endswith(image_extensions)]\<close>,
  applied to the listing that \<open>os.listdir\<close> returned.
\<close>

definition select_images :: "string list \<Rightarrow> string list" where
  "select_images listing = filter (\<lambda>f. endswith_any f image_extensions) listing"

text \<open>
  The specification's wording of the same selection, for comparison: the extension of the
  name, compared case-insensitively, is one of jpg, jpeg, png.
\<close>

definition lower_char :: "char \<Rightarrow> char" where
  "lower_char c =
     (let n = (of_char c :: nat) in if 65 \<le> n \<and> n \<le> 90 then char_of (n + 32) else c)"

definition spec_has_image_extension :: "string \<Rightarrow> bool" where
  "spec_has_image_extension f \<longleftrightarrow>
     map lower_char (snd (splitext f)) \<in> set [''.jpg'', ''.jpeg'', ''.png'']"

section \<open>Exceptions\<close>

text \<open>
  A raised exception: an instance of a subclass of \<open>Exception\<close>, with the name of its
  class and its message. Every fallible operation returns \<open>exn + 'a\<close>, \<open>Inl\<close> the raise.
  \<open>except FileNotFoundError\<close> catches by class name; \<open>except Exception\<close> catches
  every value of this type.
\<close>

datatype exn = Exn (exc_class: string) (exc_msg: string)

section \<open>Python floats\<close>

text \<open>
  A Python \<open>float\<close> is an IEEE 754 binary64 number: a rational with a 53-bit significand,
  an infinity, or a NaN. The sign of zero is not modelled (it shows only in printed
  text). \<open>round_binary64\<close> rounds a rational to the nearest binary64 number, ties to the
  even significand, subnormal numbers included; \<open>to_float\<close> adds the overflow to an
  infinity.
\<close>

datatype pyfloat = Finite rat | PosInf | NegInf | NaN

text \<open>\<open>ilog2 x\<close>, for \<open>x > 0\<close>: the integer \<open>k\<close> with \<open>2^k \<le> x < 2^(k+1)\<close>.\<close>

definition ilog2 :: "rat \<Rightarrow> int" where
  "ilog2 x = (let (a, b) = quotient_of x; d = bitlen a - bitlen b
              in if 2 powi d \<le> x then d else d - 1)"

definition round_half_even :: "rat \<Rightarrow> int" where
  "round_half_even x =
     (let f = \<lfloor>x\<rfloor>; d = x - of_int f
      in if d < 1 / 2 then f else if 1 / 2 < d then f + 1 else if even f then f else f + 1)"

definition ulp_exponent :: "rat \<Rightarrow> int" where
  "ulp_exponent x = max (ilog2 \<bar>x\<bar> - 52) (- 1074)"

definition round_binary64 :: "rat \<Rightarrow> rat" where
  "round_binary64 x =
     (if x = 0 then 0
      else of_int (round_half_even (x / 2 powi ulp_exponent x)) * 2 powi ulp_exponent x)"

definition to_float :: "rat \<Rightarrow> pyfloat" where
  "to_float x =
     (let y = round_binary64 x
      in if 2 ^ 1024 \<le> y then PosInf else if y \<le> - (2 ^ 1024) then NegInf else Finite y)"

text \<open>\<open>a / b\<close> on two \<open>int\<close>s: the correctly rounded quotient.\<close>

definition py_truediv :: "int \<Rightarrow> int \<Rightarrow> exn + pyfloat" where
  "py_truediv a b =
     (if b = 0 then Inl (Exn ''ZeroDivisionError'' ''division by zero'')
      else case to_float (of_int a / of_int b) of
             Finite y \<Rightarrow> Inr (Finite y)
           | _ \<Rightarrow> Inl (Exn ''OverflowError'' ''integer division result too large for a float''))"

text \<open>The conversion of an \<open>int\<close> operand in mixed arithmetic.\<close>

definition float_of_int :: "int \<Rightarrow> exn + pyfloat" where
  "float_of_int n =
     (case to_float (of_int n) of
        Finite y \<Rightarrow> Inr (Finite y)
      | _ \<Rightarrow> Inl (Exn ''OverflowError'' ''int too large to convert to float''))"

fun float_mul :: "pyfloat \<Rightarrow> pyfloat \<Rightarrow> pyfloat" where
  "float_mul (Finite a) (Finite b) = to_float (a * b)"
| "float_mul NaN y = NaN"
| "float_mul x NaN = NaN"
| "float_mul (Finite a) PosInf = (if a = 0 then NaN else if 0 < a then PosInf else NegInf)"
| "float_mul (Finite a) NegInf = (if a = 0 then NaN else if 0 < a then NegInf else PosInf)"
| "float_mul PosInf (Finite b) = (if b = 0 then NaN else if 0 < b then PosInf else NegInf)"
| "float_mul NegInf (Finite b) = (if b = 0 then NaN else if 0 < b then NegInf else PosInf)"
| "float_mul PosInf PosInf = PosInf"
| "float_mul NegInf NegInf = PosInf"
| "float_mul PosInf NegInf = NegInf"
| "float_mul NegInf PosInf = NegInf"

fun float_sub :: "pyfloat \<Rightarrow> pyfloat \<Rightarrow> pyfloat" where
  "float_sub (Finite a) (Finite b) = to_float (a - b)"
| "float_sub NaN y = NaN"
| "float_sub x NaN = NaN"
| "float_sub PosInf PosInf = NaN"
| "float_sub NegInf NegInf = NaN"
| "float_sub PosInf y = PosInf"
| "float_sub NegInf y = NegInf"
| "float_sub x PosInf = NegInf"
| "float_sub x NegInf = PosInf"

text \<open>\<open>x / y\<close> on two \<open>float\<close>s raises on a zero divisor.\<close>

definition float_div :: "pyfloat \<Rightarrow> pyfloat \<Rightarrow> exn + pyfloat" where
  "float_div x y =
     (case y of
        Finite b \<Rightarrow>
          if b = 0 then Inl (Exn ''ZeroDivisionError'' ''float division by zero'')
          else Inr (case x of
                      Finite a \<Rightarrow> to_float (a / b)
                    | PosInf \<Rightarrow> if 0 < b then PosInf else NegInf
                    | NegInf \<Rightarrow> if 0 < b then NegInf else PosInf
                    | NaN \<Rightarrow> NaN)
      | NaN \<Rightarrow> Inr NaN
      | _ \<Rightarrow> Inr (case x of Finite a \<Rightarrow> Finite 0 | _ \<Rightarrow> NaN))"

text \<open>\<open>int(x)\<close> on a \<open>float\<close>: truncation towards zero.\<close>

definition py_int :: "pyfloat \<Rightarrow> exn + int" where
  "py_int x =
     (case x of
        Finite y \<Rightarrow> Inr (if 0 \<le> y then \<lfloor>y\<rfloor> else \<lceil>y\<rceil>)
      | NaN \<Rightarrow> Inl (Exn ''ValueError'' ''cannot convert float NaN to integer'')
      | _ \<Rightarrow> Inl (Exn ''OverflowError'' ''cannot convert float infinity to integer''))"

text \<open>\<open>n / 1024 / 1024\<close> of lines 83 and 92 to 94: an \<open>int\<close> division, then a \<open>float\<close> one.\<close>

definition megabytes :: "int \<Rightarrow> exn + pyfloat" where
  "megabytes n =
     (case py_truediv n 1024 of
        Inl e \<Rightarrow> Inl e
      | Inr k \<Rightarrow> float_div k (Finite 1024))"

text \<open>\<open>(1 - compressed / original) * 100\<close> of lines 80 and 95.\<close>

definition reduction_percent :: "int \<Rightarrow> int \<Rightarrow> exn + pyfloat" where
  "reduction_percent compressed original =
     (case py_truediv compressed original of
        Inl e \<Rightarrow> Inl e
      | Inr q \<Rightarrow> Inr (float_mul (float_sub (Finite 1) q) (Finite 100)))"

section \<open>The file system and the imaging library\<close>

text \<open>
  The file system holds regular files (their bytes) and directories.
  \<open>os.path.getsize\<close> is the length of the file's bytes.
\<close>

type_synonym bytes = "8 word list"

record filesystem =
  files :: "path \<rightharpoonup> bytes"
  dirs :: "path set"

definition getsize :: "filesystem \<Rightarrow> path \<Rightarrow> exn + int" where
  "getsize fs p =
     (case files fs p of
        None \<Rightarrow> Inl (Exn ''FileNotFoundError'' p)
      | Some b \<Rightarrow> Inr (int (length b)))"

text \<open>The path and each of its prefixes that ends before a separator.\<close>

definition path_ancestors :: "path \<Rightarrow> path list" where
  "path_ancestors p = [take i p. i \<leftarrow> [1..<length p], p ! i = CHR ''/''] @ [p]"

text \<open>
  A decoded \<open>PIL.Image\<close>: its mode string, its size, and its pixel data, which the
  library alone reads and writes.
\<close>

record 'px image =
  mode :: string
  width :: int
  height :: int
  pixels :: 'px

datatype resampling = NEAREST | BILINEAR | BICUBIC | LANCZOS

text \<open>
  What \<open>img.save\<close> did: it wrote the encoded bytes, or it raised and left the
  destination with the given content (\<open>None\<close>: no file there).
\<close>

datatype save_result = Written bytes | SaveFailed exn "bytes option"

text \<open>What the script prints, one constructor per \<open>print\<close> call, with the values it formats.\<close>

datatype line =
    FolderNotFound path
  | NoImageFiles path
  | Compressing nat path
  | OutputFolder path
  | Settings int int
  | FileName nat nat string
  | FileSizes pyfloat pyfloat pyfloat
  | FileError nat nat string exn
  | Rule
  | CompressionComplete
  | TotalOriginal pyfloat
  | TotalCompressed pyfloat
  | TotalSaved pyfloat
  | OverallReduction pyfloat
  | SavedTo path

text \<open>
  The operating system, the standard output and Pillow are outside the repository: each
  of their calls is a parameter of the model, free to raise. Where the library's
  interface fixes the mode or the size of a result, the model builds the image around the
  pixel data that the call returns. \<open>print_error\<close> is what a \<open>print\<close> raises, if
  anything, given the lines printed so far and the line to print (an encoding error on a
  name that the output cannot encode, a closed pipe).
\<close>

record 'px world =
  os_makedirs_error :: "filesystem \<Rightarrow> path \<Rightarrow> exn option"
  os_listdir :: "filesystem \<Rightarrow> path \<Rightarrow> exn + string list"
  Image_open :: "filesystem \<Rightarrow> path \<Rightarrow> exn + 'px image"
  Image_new :: "string \<Rightarrow> int \<times> int \<Rightarrow> int \<times> int \<times> int \<Rightarrow> exn + 'px"
  Image_convert :: "'px image \<Rightarrow> string \<Rightarrow> exn + 'px"
  Image_split :: "'px image \<Rightarrow> exn + 'px list"
  Image_paste :: "'px image \<Rightarrow> 'px image \<Rightarrow> 'px image option \<Rightarrow> exn + 'px"
  Image_resize :: "'px image \<Rightarrow> int \<times> int \<Rightarrow> resampling \<Rightarrow> exn + 'px"
  Image_save :: "filesystem \<Rightarrow> 'px image \<Rightarrow> path \<Rightarrow> string \<Rightarrow> int \<Rightarrow> bool \<Rightarrow> save_result"
  print_error :: "line list \<Rightarrow> line \<Rightarrow> exn option"

text \<open>\<open>os.makedirs(p, exist_ok=True)\<close>: it raises, or \<open>p\<close> and its ancestors are directories.\<close>

definition makedirs :: "'px world \<Rightarrow> filesystem \<Rightarrow> path \<Rightarrow> exn + filesystem" where
  "makedirs w fs p =
     (case os_makedirs_error w fs p of
        Some e \<Rightarrow> Inl e
      | None \<Rightarrow> Inr (fs\<lparr>dirs := dirs fs \<union> set (path_ancestors p)\<rparr>))"

section \<open>The stages of \<open>compress_images\<close>\<close>

subsection \<open>ColorNormalizer (lines 56 to 61)\<close>

text \<open>\<open>img.split()[-1]\<close>: the last band, an image of mode \<open>L\<close> of the same size.\<close>

definition last_band :: "'px world \<Rightarrow> 'px image \<Rightarrow> exn + 'px image" where
  "last_band w img =
     (case Image_split w img of
        Inl e \<Rightarrow> Inl e
      | Inr bands \<Rightarrow>
          if bands = [] then Inl (Exn ''IndexError'' ''tuple index out of range'')
          else Inr \<lparr>mode = ''L'', width = width img, height = height img, pixels = last bands\<rparr>)"

definition color_normalizer :: "'px world \<Rightarrow> 'px image \<Rightarrow> exn + 'px image" where
  "color_normalizer w img =
     (if mode img \<in> set [''RGBA'', ''LA'', ''P''] then
        (case Image_new w ''RGB'' (width img, height img) (255, 255, 255) of
           Inl e \<Rightarrow> Inl e
         | Inr white \<Rightarrow>
             (let background =
                    \<lparr>mode = ''RGB'', width = width img, height = height img, pixels = white\<rparr>
              in (case (if mode img = ''P'' then
                          (case Image_convert w img ''RGBA'' of
                             Inl e \<Rightarrow> Inl e
                           | Inr px \<Rightarrow> Inr (img\<lparr>mode := ''RGBA'', pixels := px\<rparr>))
                        else Inr img) of
                    Inl e \<Rightarrow> Inl e
                  | Inr src \<Rightarrow>
                      (case (if mode src = ''RGBA'' then
                               (case last_band w src of
                                  Inl e \<Rightarrow> Inl e
                                | Inr m \<Rightarrow> Inr (Some m))
                             else Inr None) of
                         Inl e \<Rightarrow> Inl e
                       | Inr mask_img \<Rightarrow>
                           (case Image_paste w background src mask_img of
                              Inl e \<Rightarrow> Inl e
                            | Inr px \<Rightarrow> Inr (background\<lparr>pixels := px\<rparr>))))))
      else Inr img)"

subsection \<open>Resizer (lines 64 to 67)\<close>

text \<open>\<open>int(img.height * ratio)\<close> with \<open>ratio = max_width / img.width\<close>.\<close>

definition new_height :: "int \<Rightarrow> int \<Rightarrow> int \<Rightarrow> exn + int" where
  "new_height max_width img_width img_height =
     (case py_truediv max_width img_width of
        Inl e \<Rightarrow> Inl e
      | Inr ratio \<Rightarrow>
          (case float_of_int img_height of
             Inl e \<Rightarrow> Inl e
           | Inr h \<Rightarrow> py_int (float_mul h ratio)))"

definition resizer :: "'px world \<Rightarrow> int \<Rightarrow> 'px image \<Rightarrow> exn + 'px image" where
  "resizer w max_width img =
     (if width img > max_width then
        (case new_height max_width (width img) (height img) of
           Inl e \<Rightarrow> Inl e
         | Inr nh \<Rightarrow>
             (case Image_resize w img (max_width, nh) LANCZOS of
                Inl e \<Rightarrow> Inl e
              | Inr px \<Rightarrow> Inr \<lparr>mode = mode img, width = max_width, height = nh, pixels = px\<rparr>))
      else Inr img)"

subsection \<open>State of a run\<close>

record state =
  disk :: filesystem
  total_original_size :: int
  total_compressed_size :: int
  stdout :: "line list"

text \<open>
  A statement that may raise: the exception, if any, and the state it leaves. \<open>print\<close>
  appends its line to the output unless it raises; \<open>print_value\<close> is a \<open>print\<close> whose
  formatted value may raise while it is computed; \<open>statements\<close> runs a sequence up to
  the first raise.
\<close>

definition print :: "'px world \<Rightarrow> line \<Rightarrow> state \<Rightarrow> exn option \<times> state" where
  "print w l st =
     (case print_error w (stdout st) l of
        None \<Rightarrow> (None, st\<lparr>stdout := stdout st @ [l]\<rparr>)
      | Some e \<Rightarrow> (Some e, st))"

definition print_value ::
  "'px world \<Rightarrow> (pyfloat \<Rightarrow> line) \<Rightarrow> exn + pyfloat \<Rightarrow> state \<Rightarrow> exn option \<times> state" where
  "print_value w l v st = (case v of Inl e \<Rightarrow> (Some e, st) | Inr x \<Rightarrow> print w (l x) st)"

fun statements :: "(state \<Rightarrow> exn option \<times> state) list \<Rightarrow> state \<Rightarrow> exn option \<times> state" where
  "statements [] st = (None, st)"
| "statements (stmt # rest) st =
     (case stmt st of
        (Some e, st1) \<Rightarrow> (Some e, st1)
      | (None, st1) \<Rightarrow> statements rest st1)"

subsection \<open>Encoder (lines 71 to 74)\<close>

definition output_filename :: "string \<Rightarrow> string" where
  "output_filename filename = fst (splitext filename) @ ''.jpg''"

definition write_file :: "path \<Rightarrow> bytes option \<Rightarrow> filesystem \<Rightarrow> filesystem" where
  "write_file p content fs = fs\<lparr>files := (files fs)(p := content)\<rparr>"

definition encoder ::
  "'px world \<Rightarrow> path \<Rightarrow> int \<Rightarrow> string \<Rightarrow> 'px image \<Rightarrow> state \<Rightarrow> (exn + path) \<times> state" where
  "encoder w output_folder quality filename img st =
     (let output_path = path_join output_folder (output_filename filename)
      in case Image_save w (disk st) img output_path ''JPEG'' quality True of
           SaveFailed e left \<Rightarrow> (Inl e, st\<lparr>disk := write_file output_path left (disk st)\<rparr>)
         | Written b \<Rightarrow> (Inr output_path, st\<lparr>disk := write_file output_path (Some b) (disk st)\<rparr>))"

subsection \<open>SizeAccountant and the per-file report (lines 77 to 83)\<close>

definition size_accountant ::
  "'px world \<Rightarrow> nat \<Rightarrow> nat \<Rightarrow> string \<Rightarrow> int \<Rightarrow> path \<Rightarrow> state \<Rightarrow> (exn + int \<times> int) \<times> state" where
  "size_accountant w i n filename original_size output_path st =
     (case getsize (disk st) output_path of
        Inl e \<Rightarrow> (Inl e, st)
      | Inr compressed_size \<Rightarrow>
          (let st1 = st\<lparr>total_compressed_size := total_compressed_size st + compressed_size\<rparr>
           in (case reduction_percent compressed_size original_size of
                 Inl e \<Rightarrow> (Inl e, st1)
               | Inr reduction \<Rightarrow>
                   (case print w (FileName i n filename) st1 of
                      (Some e, st2) \<Rightarrow> (Inl e, st2)
                    | (None, st2) \<Rightarrow>
                        (case megabytes original_size of
                           Inl e \<Rightarrow> (Inl e, st2)
                         | Inr mo \<Rightarrow>
                             (case megabytes compressed_size of
                                Inl e \<Rightarrow> (Inl e, st2)
                              | Inr mc \<Rightarrow>
                                  (case print w (FileSizes mo mc reduction) st2 of
                                     (Some e, st3) \<Rightarrow> (Inl e, st3)
                                   | (None, st3) \<Rightarrow>
                                       (Inr (original_size, compressed_size), st3))))))))"

subsection \<open>The body of the \<open>try\<close> (lines 49 to 83)\<close>

definition pipeline ::
  "'px world \<Rightarrow> path \<Rightarrow> int \<Rightarrow> int \<Rightarrow> nat \<Rightarrow> nat \<Rightarrow> string \<Rightarrow> int \<Rightarrow> 'px image \<Rightarrow> state
     \<Rightarrow> (exn + int \<times> int) \<times> state" where
  "pipeline w output_folder max_width quality i n filename original_size img st =
     (case color_normalizer w img of
        Inl e \<Rightarrow> (Inl e, st)
      | Inr rgb \<Rightarrow>
          (case resizer w max_width rgb of
             Inl e \<Rightarrow> (Inl e, st)
           | Inr small \<Rightarrow>
               (case encoder w output_folder quality filename small st of
                  (Inl e, st1) \<Rightarrow> (Inl e, st1)
                | (Inr output_path, st1) \<Rightarrow>
                    size_accountant w i n filename original_size output_path st1)))"

definition try_file ::
  "'px world \<Rightarrow> path \<Rightarrow> path \<Rightarrow> int \<Rightarrow> int \<Rightarrow> nat \<Rightarrow> nat \<Rightarrow> string \<Rightarrow> state
     \<Rightarrow> (exn + int \<times> int) \<times> state" where
  "try_file w input_folder output_folder max_width quality i n filename st =
     (let input_path = path_join input_folder filename
      in case Image_open w (disk st) input_path of
           Inl e \<Rightarrow> (Inl e, st)
         | Inr img \<Rightarrow>
             (case getsize (disk st) input_path of
                Inl e \<Rightarrow> (Inl e, st)
              | Inr original_size \<Rightarrow>
                  pipeline w output_folder max_width quality i n filename original_size img
                    (st\<lparr>total_original_size := total_original_size st + original_size\<rparr>)))"

subsection \<open>ErrorIsolator (lines 48 and 85 to 86) and the loop (line 44)\<close>

text \<open>
  The outcome of one file, as the specification's FileResult has it: the original and the
  compressed size of a success, or the exception that the handler caught. The handler's
  own \<open>print\<close> (line 86) is outside the \<open>try\<close>: what it raises leaves the loop. So one
  iteration gives the exception that leaves it, if any, and the file's result; the loop
  stops at the first exception that leaves an iteration.
\<close>

type_synonym file_result = "exn + int \<times> int"

definition error_isolator ::
  "'px world \<Rightarrow> path \<Rightarrow> path \<Rightarrow> int \<Rightarrow> int \<Rightarrow> nat \<Rightarrow> nat \<Rightarrow> string \<Rightarrow> state
     \<Rightarrow> exn option \<times> file_result \<times> state" where
  "error_isolator w input_folder output_folder max_width quality i n filename st =
     (case try_file w input_folder output_folder max_width quality i n filename st of
        (Inl e, st1) \<Rightarrow>
          (case print w (FileError i n filename e) st1 of
             (raised, st2) \<Rightarrow> (raised, Inl e, st2))
      | (Inr sizes, st1) \<Rightarrow> (None, Inr sizes, st1))"

fun process_files ::
  "'px world \<Rightarrow> path \<Rightarrow> path \<Rightarrow> int \<Rightarrow> int \<Rightarrow> nat \<Rightarrow> nat \<Rightarrow> string list \<Rightarrow> state
     \<Rightarrow> exn option \<times> (string \<times> file_result) list \<times> state" where
  "process_files w input_folder output_folder max_width quality i n [] st = (None, [], st)"
| "process_files w input_folder output_folder max_width quality i n (filename # rest) st =
     (case error_isolator w input_folder output_folder max_width quality i n filename st of
        (Some e, r, st1) \<Rightarrow> (Some e, [(filename, r)], st1)
      | (None, r, st1) \<Rightarrow>
          (case process_files w input_folder output_folder max_width quality (i + 1) n rest st1 of
             (raised, rs, st2) \<Rightarrow> (raised, (filename, r) # rs, st2)))"

subsection \<open>Reporter: the summary (lines 89 to 96)\<close>

text \<open>The \<open>print\<close> calls change neither total, so each value is that of the state at entry.\<close>

definition summary :: "'px world \<Rightarrow> path \<Rightarrow> state \<Rightarrow> exn option \<times> state" where
  "summary w output_folder st =
     statements
       [print w Rule,
        print w CompressionComplete,
        print w Rule,
        print_value w TotalOriginal (megabytes (total_original_size st)),
        print_value w TotalCompressed (megabytes (total_compressed_size st)),
        print_value w TotalSaved (megabytes (total_original_size st - total_compressed_size st)),
        print_value w OverallReduction
          (reduction_percent (total_compressed_size st) (total_original_size st)),
        print w (SavedTo output_folder)] st"

subsection \<open>\<open>compress_images\<close> (lines 5 to 96)\<close>

text \<open>
  How a call ends: it returns, or an exception leaves it. With it come the per-file
  results in processing order and the final state.
\<close>

datatype outcome = Returned | Raised exn

definition outcome_of :: "exn option \<Rightarrow> outcome" where
  "outcome_of raised = (case raised of None \<Rightarrow> Returned | Some e \<Rightarrow> Raised e)"

definition initial_state :: "filesystem \<Rightarrow> state" where
  "initial_state fs =
     \<lparr>disk = fs, total_original_size = 0, total_compressed_size = 0, stdout = []\<rparr>"

definition compress_images ::
  "'px world \<Rightarrow> filesystem \<Rightarrow> path \<Rightarrow> path option \<Rightarrow> int \<Rightarrow> int
     \<Rightarrow> outcome \<times> (string \<times> file_result) list \<times> state" where
  "compress_images w fs input_folder output_folder_arg max_width quality =
     (let output_folder =
            (case output_folder_arg of None \<Rightarrow> input_folder @ ''-compressed'' | Some p \<Rightarrow> p)
      in (case makedirs w fs output_folder of
            Inl e \<Rightarrow> (Raised e, [], initial_state fs)
          | Inr fs1 \<Rightarrow>
              (let st = initial_state fs1
               in (case os_listdir w fs1 input_folder of
                     Inl e \<Rightarrow>
                       (if exc_class e = ''FileNotFoundError''
                        then (case print w (FolderNotFound input_folder) st of
                                (raised, st1) \<Rightarrow> (outcome_of raised, [], st1))
                        else (Raised e, [], st))
                   | Inr listing \<Rightarrow>
                       (let image_files = select_images listing
                        in (if image_files = []
                            then (case print w (NoImageFiles input_folder) st of
                                    (raised, st1) \<Rightarrow> (outcome_of raised, [], st1))
                            else
                              (case statements
                                      [print w (Compressing (length image_files) input_folder),
                                       print w (OutputFolder output_folder),
                                       print w (Settings max_width quality)] st of
                                 (Some e, st1) \<Rightarrow> (Raised e, [], st1)
                               | (None, st1) \<Rightarrow>
                                   (case process_files w input_folder output_folder max_width
                                           quality 1 (length image_files) image_files st1 of
                                      (Some e, results, st2) \<Rightarrow> (Raised e, results, st2)
                                    | (None, results, st2) \<Rightarrow>
                                        (case summary w output_folder st2 of
                                           (raised, st3) \<Rightarrow>
                                             (outcome_of raised, results, st3))))))))))"

section \<open>The specification's aggregates over a batch\<close>

text \<open>
  The sums that the specification's BatchReport is to hold: over the successful results
  only.
\<close>

fun successful_original_sum :: "(string \<times> file_result) list \<Rightarrow> int" where
  "successful_original_sum [] = 0"
| "successful_original_sum ((f, Inr (original, compressed)) # rs) =
     original + successful_original_sum rs"
| "successful_original_sum ((f, Inl e) # rs) = successful_original_sum rs"

fun successful_compressed_sum :: "(string \<times> file_result) list \<Rightarrow> int" where
  "successful_compressed_sum [] = 0"
| "successful_compressed_sum ((f, Inr (original, compressed)) # rs) =
     compressed + successful_compressed_sum rs"
| "successful_compressed_sum ((f, Inl e) # rs) = successful_compressed_sum rs"

text \<open>The failed files of a batch with their exceptions, and the error lines of an output.\<close>

fun failures :: "(string \<times> file_result) list \<Rightarrow> (string \<times> exn) list" where
  "failures [] = []"
| "failures ((f, Inl e) # rs) = (f, e) # failures rs"
| "failures ((f, Inr sizes) # rs) = failures rs"

fun error_lines :: "line list \<Rightarrow> (string \<times> exn) list" where
  "error_lines [] = []"
| "error_lines (FileError i n f e # ls) = (f, e) # error_lines ls"
| "error_lines (l # ls) = error_lines ls"

section \<open>A sample world\<close>

text \<open>
  One behaviour of the operating system and of Pillow, to run the model on concrete
  inputs. Pixel data is the term of the calls that produced it. The listing and the
  decoder are tables; \<open>resize\<close> rejects a size below one pixel, as Pillow does; the
  encoder writes JPEG's modes only and its output is a stand-in for the encoded bytes;
  the standard output takes every line.
\<close>

datatype px =
    FromFile path
  | Canvas "int \<times> int \<times> int"
  | Converted px string
  | Band px nat
  | Pasted px px "px option"
  | Resampled px "int \<times> int" resampling

definition sample_jpeg :: "px image \<Rightarrow> int \<Rightarrow> bytes" where
  "sample_jpeg img quality = replicate (nat (width img * height img * quality div 10000000) + 2) 255"

definition sample_world ::
  "(path \<times> string list) list \<Rightarrow> (path \<times> px image) list \<Rightarrow> px world" where
  "sample_world listings decoded =
     \<lparr>os_makedirs_error =
        (\<lambda>fs p. if files fs p = None then None else Some (Exn ''FileExistsError'' p)),
      os_listdir =
        (\<lambda>fs p. case map_of listings p of
                   None \<Rightarrow> Inl (Exn ''FileNotFoundError'' p)
                 | Some names \<Rightarrow> Inr names),
      Image_open =
        (\<lambda>fs p. case map_of decoded p of
                   None \<Rightarrow> Inl (Exn ''UnidentifiedImageError'' p)
                 | Some img \<Rightarrow> Inr img),
      Image_new = (\<lambda>m sz colour. Inr (Canvas colour)),
      Image_convert = (\<lambda>img m. Inr (Converted (pixels img) m)),
      Image_split = (\<lambda>img. Inr (map (Band (pixels img)) [0..<length (mode img)])),
      Image_paste = (\<lambda>bg src m. Inr (Pasted (pixels bg) (pixels src) (map_option pixels m))),
      Image_resize =
        (\<lambda>img sz f. if fst sz < 1 \<or> snd sz < 1
                     then Inl (Exn ''ValueError'' ''height and width must be > 0'')
                     else Inr (Resampled (pixels img) sz f)),
      Image_save =
        (\<lambda>fs img p fmt quality opt.
           if mode img \<in> set [''1'', ''L'', ''RGB'', ''RGBX'', ''CMYK'', ''YCbCr'']
           then Written (sample_jpeg img quality)
           else SaveFailed (Exn ''OSError'' (''cannot write mode '' @ mode img @ '' as JPEG''))
                  (map_option (\<lambda>b. []) (files fs p))),
      print_error = (\<lambda>printed l. None)\<rparr>"

definition sample_disk :: "(path \<times> bytes) list \<Rightarrow> filesystem" where
  "sample_disk contents = \<lparr>files = map_of contents, dirs = {}\<rparr>"

text \<open>Runs of the model on the sample world.\<close>

definition unlistable_run :: "outcome \<times> (string \<times> file_result) list \<times> state" where
  "unlistable_run =
     compress_images
       ((sample_world [] []) \<lparr>os_listdir := \<lambda>fs p. Inl (Exn ''PermissionError'' p)\<rparr>)
       (sample_disk []) ''private'' None 2000 85"

definition sample_photos_world :: "px world" where
  "sample_photos_world =
     sample_world [(''in'', [''a.png'', ''b.jpg'', ''notes.txt'', ''c.JPG'', ''d.Jpg''])]
       [(''in/a.png'',
         \<lparr>mode = ''RGBA'', width = 3000, height = 2000, pixels = FromFile ''in/a.png''\<rparr>),
        (''in/b.jpg'',
         \<lparr>mode = ''RGB'', width = 500, height = 500, pixels = FromFile ''in/b.jpg''\<rparr>)]"

definition sample_photos_disk :: filesystem where
  "sample_photos_disk =
     sample_disk [(''in/a.png'', replicate 100 7), (''in/b.jpg'', replicate 50 9),
                  (''in/c.JPG'', [1, 2, 3])]"

definition sample_run :: "outcome \<times> (string \<times> file_result) list \<times> state" where
  "sample_run = compress_images sample_photos_world sample_photos_disk ''in'' None 2000 85"

definition undecodable_run :: "outcome \<times> (string \<times> file_result) list \<times> state" where
  "undecodable_run =
     compress_images (sample_world [(''in'', [''broken.jpg''])] [])
       (sample_disk [(''in/broken.jpg'', [1, 2, 3])]) ''in'' None 2000 85"

definition zero_byte_run :: "outcome \<times> (string \<times> file_result) list \<times> state" where
  "zero_byte_run =
     compress_images
       (sample_world [(''in'', [''empty.jpg'', ''b.jpg''])]
          [(''in/b.jpg'',
            \<lparr>mode = ''RGB'', width = 500, height = 500, pixels = FromFile ''in/b.jpg''\<rparr>)])
       (sample_disk [(''in/empty.jpg'', []), (''in/b.jpg'', replicate 50 9)]) ''in'' None 2000 85"

definition sixteen_bit_run :: "outcome \<times> (string \<times> file_result) list \<times> state" where
  "sixteen_bit_run =
     compress_images
       (sample_world [(''in'', [''scan.png''])]
          [(''in/scan.png'',
            \<lparr>mode = ''I;16'', width = 800, height = 600, pixels = FromFile ''in/scan.png''\<rparr>)])
       (sample_disk [(''in/scan.png'', replicate 120 0)]) ''in'' None 2000 85"

text \<open>
  The specification's formula for the Resizer: \<open>ratio = W / width\<close> in floating point,
  and the new height is \<open>height \<times> ratio\<close>, a floating-point product, truncated.
\<close>

definition spec_resized_height :: "int \<Rightarrow> int \<Rightarrow> int \<Rightarrow> int" where
  "spec_resized_height W img_width img_height =
     \<lfloor>round_binary64 (of_int img_height * round_binary64 (of_int W / of_int img_width))\<rfloor>"

definition sample_wide_world :: "px world" where
  "sample_wide_world =
     sample_world [(''in'', [''wide.png''])]
       [(''in/wide.png'',
         \<lparr>mode = ''RGB'', width = 3000, height = 1, pixels = FromFile ''in/wide.png''\<rparr>)]"

definition sample_pair_world :: "px world" where
  "sample_pair_world =
     sample_world [(''in'', [''photo.png'', ''photo.jpg''])]
       [(''in/photo.png'',
         \<lparr>mode = ''RGBA'', width = 3000, height = 2000, pixels = FromFile ''in/photo.png''\<rparr>),
        (''in/photo.jpg'',
         \<lparr>mode = ''RGB'', width = 500, height = 500, pixels = FromFile ''in/photo.jpg''\<rparr>)]"

definition sample_pair_disk :: filesystem where
  "sample_pair_disk =
     sample_disk [(''in/photo.png'', replicate 100 7), (''in/photo.jpg'', replicate 50 9)]"

definition pair_first :: "exn option \<times> file_result \<times> state" where
  "pair_first =
     error_isolator sample_pair_world ''in'' ''out'' 2000 85 1 2 ''photo.png''
       (initial_state sample_pair_disk)"

definition pair_second :: "exn option \<times> file_result \<times> state" where
  "pair_second =
     error_isolator sample_pair_world ''in'' ''out'' 2000 85 2 2 ''photo.jpg''
       (snd (snd pair_first))"

text \<open>
  A standard output that encodes ASCII only: a \<open>print\<close> raises on a name with a byte
  above 127, and on the arrow of line 83. The folder of the last run holds a file whose
  name has such a byte and whose content does not decode, and a second file.
\<close>

definition ascii_text :: "string \<Rightarrow> bool" where
  "ascii_text s \<longleftrightarrow> list_all (\<lambda>c. (of_char c :: nat) < 128) s"

definition encode_error :: "string \<Rightarrow> exn option" where
  "encode_error s = (if ascii_text s then None else Some (Exn ''UnicodeEncodeError'' s))"

definition ascii_stdout :: "line list \<Rightarrow> line \<Rightarrow> exn option" where
  "ascii_stdout printed l =
     (case l of
        FolderNotFound p \<Rightarrow> encode_error p
      | NoImageFiles p \<Rightarrow> encode_error p
      | Compressing k p \<Rightarrow> encode_error p
      | OutputFolder p \<Rightarrow> encode_error p
      | FileName i n f \<Rightarrow> encode_error f
      | FileSizes mo mc r \<Rightarrow> Some (Exn ''UnicodeEncodeError'' ''arrow'')
      | FileError i n f e \<Rightarrow> encode_error (f @ exc_msg e)
      | SavedTo p \<Rightarrow> encode_error p
      | _ \<Rightarrow> None)"

definition latin1_name :: string where
  "latin1_name = ''caf'' @ [CHR 0xE9] @ ''.jpg''"

definition unprintable_run :: "outcome \<times> (string \<times> file_result) list \<times> state" where
  "unprintable_run =
     compress_images
       ((sample_world [(''in'', [latin1_name, ''ok.jpg''])]
           [(''in/ok.jpg'',
             \<lparr>mode = ''RGB'', width = 500, height = 500, pixels = FromFile ''in/ok.jpg''\<rparr>)])
          \<lparr>print_error := ascii_stdout\<rparr>)
       (sample_disk [(''in/'' @ latin1_name, [1, 2, 3]), (''in/ok.jpg'', replicate 50 9)])
       ''in'' None 2000 85"

section \<open>The Enumerator selects by literal suffix\<close>

lemma endswith_iff: "endswith s sfx \<longleftrightarrow> (\<exists>stem. s = stem @ sfx)"
proof
  assume "endswith s sfx"
  then have "s = take (length s - length sfx) s @ sfx"
    by (metis append_take_drop_id endswith_def)
  then show "\<exists>stem. s = stem @ sfx" ..
next
  assume "\<exists>stem. s = stem @ sfx"
  then show "endswith s sfx" by (auto simp: endswith_def)
qed

text \<open>
  C5, as the specification words it: a name is enumerated if and only if its extension,
  compared case-insensitively, is jpg, jpeg or png. The code does not do that: the name
  \<open>photo.Jpg\<close> has such an extension and is not selected.
\<close>

theorem mixed_case_extension_counterexample:
  "spec_has_image_extension ''photo.Jpg'' \<and> ''photo.Jpg'' \<notin> set (select_images [''photo.Jpg''])"
  by code_simp

text \<open>
  C5, amended: the Enumerator keeps, in the order of the listing, exactly the entries
  whose name ends with one of the six literal suffixes of line 24, all lower case or all
  upper case.
\<close>

theorem select_images_suffixes:
  "select_images listing =
     filter (\<lambda>f. \<exists>stem. f \<in> {stem @ ''.jpg'', stem @ ''.jpeg'', stem @ ''.png'',
                              stem @ ''.JPG'', stem @ ''.JPEG'', stem @ ''.PNG''}) listing"
  unfolding select_images_def endswith_any_def image_extensions_def
  by (rule filter_cong) (auto simp: endswith_iff)

section \<open>Paths: the output name\<close>

lemma rfind_bounds: "- 1 \<le> rfind xs c \<and> rfind xs c < int (length xs)"
  by (induction xs) (auto simp: Let_def)

lemma rfind_append:
  "rfind (xs @ ys) c = (if rfind ys c \<noteq> - 1 then int (length xs) + rfind ys c else rfind xs c)"
  using rfind_bounds [of ys c] by (induction xs) (auto simp: Let_def)

lemma rfind_take:
  assumes "rfind p c < int d"
  shows "rfind (take d p) c = rfind p c"
proof -
  have "rfind p c = rfind (take d p @ drop d p) c" by simp
  also have "\<dots> = (if rfind (drop d p) c \<noteq> - 1 then int (length (take d p)) + rfind (drop d p) c
                      else rfind (take d p) c)"
    by (rule rfind_append)
  finally have e: "rfind p c = (if rfind (drop d p) c \<noteq> - 1
                      then int (length (take d p)) + rfind (drop d p) c else rfind (take d p) c)" .
  show ?thesis
  proof (cases "rfind (drop d p) c = - 1")
    case True
    with e show ?thesis by simp
  next
    case False
    with rfind_bounds [of "drop d p" c] have "0 \<le> rfind (drop d p) c" by linarith
    moreover have "d < length p"
      using False by (cases "d < length p") auto
    ultimately have "int d \<le> rfind p c" using e False by (simp add: min_def)
    with assms show ?thesis by simp
  qed
qed

lemma splitext_loop_eq:
  "splitext_loop p i d =
     (if \<exists>k. i \<le> k \<and> k < d \<and> take 1 (drop k p) \<noteq> ''.''
      then Some (take d p, drop d p) else None)"
proof (induction p i d rule: splitext_loop.induct)
  case (1 p i d)
  show ?case
  proof (cases "i < d")
    case False
    then show ?thesis by (subst splitext_loop.simps) auto
  next
    case True
    show ?thesis
    proof (cases "take 1 (drop i p) \<noteq> ''.''")
      case t: True
      with True have "\<exists>k. i \<le> k \<and> k < d \<and> take 1 (drop k p) \<noteq> ''.''" by blast
      with True t show ?thesis by (subst splitext_loop.simps) simp
    next
      case f: False
      have "(\<exists>k. i \<le> k \<and> k < d \<and> take 1 (drop k p) \<noteq> ''.'') \<longleftrightarrow>
            (\<exists>k. i + 1 \<le> k \<and> k < d \<and> take 1 (drop k p) \<noteq> ''.'')"
        using f by (metis Suc_eq_plus1 Suc_leI le_neq_implies_less add_leD1)
      with True f "1.IH" show ?thesis by (subst splitext_loop.simps) simp
    qed
  qed
qed

lemma take1_drop: "k < length p \<Longrightarrow> take 1 (drop k p) = [p ! k]"
  by (metis One_nat_def take_Suc_Cons take_0 Cons_nth_drop_Suc)

lemma rfind_jpg_dot: "rfind ''.jpg'' (CHR ''.'') = 0"
  by (simp add: Let_def)

lemma rfind_jpg_sep: "rfind ''.jpg'' (CHR ''/'') = - 1"
  by (simp add: Let_def)

lemma splitext_forced_jpg:
  assumes "\<exists>k. nat (rfind stem (CHR ''/'') + 1) \<le> k \<and> k < length stem \<and> stem ! k \<noteq> CHR ''.''"
  shows "splitext (stem @ ''.jpg'') = (stem, ''.jpg'')"
proof -
  let ?p = "stem @ ''.jpg''"
  have dot: "rfind ?p (CHR ''.'') = int (length stem)"
    by (simp only: rfind_append rfind_jpg_dot) simp
  have sep: "rfind ?p (CHR ''/'') = rfind stem (CHR ''/'')"
    by (simp only: rfind_append rfind_jpg_sep) simp
  from assms obtain k where k: "nat (rfind stem (CHR ''/'') + 1) \<le> k" "k < length stem" "stem ! k \<noteq> CHR ''.''"
    by blast
  have kp: "k < length ?p" using k by simp
  have "?p ! k = stem ! k" using k by (simp add: nth_append)
  with take1_drop [OF kp] have "take 1 (drop k ?p) = [stem ! k]" by (simp only:)
  with k have "take 1 (drop k ?p) \<noteq> ''.''" by simp
  with k have ex: "\<exists>k. nat (rfind stem (CHR ''/'') + 1) \<le> k \<and> k < nat (int (length stem)) \<and> take 1 (drop k ?p) \<noteq> ''.''"
    by auto
  have lt: "rfind stem (CHR ''/'') < int (length stem)"
    using rfind_bounds [of stem "CHR ''/''"] by simp
  have "splitext ?p = (take (length stem) ?p, drop (length stem) ?p)"
    unfolding splitext_def Let_def dot sep splitext_loop_eq
    using lt ex by simp
  then show ?thesis by simp
qed

lemma image_extension_shape:
  assumes "e \<in> set image_extensions"
  shows "rfind e (CHR ''/'') = - 1 \<and> e \<noteq> [] \<and> last e \<noteq> CHR ''.''"
proof -
  from assms have "e = ''.jpg'' \<or> e = ''.jpeg'' \<or> e = ''.png'' \<or> e = ''.JPG'' \<or> e = ''.JPEG'' \<or> e = ''.PNG''"
    by (simp add: image_extensions_def)
  then show ?thesis by (elim disjE) (simp_all add: Let_def)
qed

lemma stem_has_basename_char:
  assumes "endswith_any f image_extensions"
  shows "\<exists>k. nat (rfind (fst (splitext f)) (CHR ''/'') + 1) \<le> k \<and> k < length (fst (splitext f)) \<and>
              fst (splitext f) ! k \<noteq> CHR ''.''"
proof -
  let ?sep = "rfind f (CHR ''/'')" and ?dot = "rfind f (CHR ''.'')"
  show ?thesis
  proof (cases "?dot > ?sep \<and> (\<exists>k. nat (?sep + 1) \<le> k \<and> k < nat ?dot \<and> take 1 (drop k f) \<noteq> ''.'')")
    case True
    then obtain k where k: "nat (?sep + 1) \<le> k" "k < nat ?dot" "take 1 (drop k f) \<noteq> ''.''" by blast
    from True have st: "fst (splitext f) = take (nat ?dot) f"
      unfolding splitext_def Let_def splitext_loop_eq by simp
    have dl: "nat ?dot < length f" using rfind_bounds [of f "CHR ''.''"] True k by linarith
    have "?sep < int (nat ?dot)" using True by linarith
    then have s: "rfind (take (nat ?dot) f) (CHR ''/'') = ?sep" by (rule rfind_take)
    have kf: "k < length f" using k dl by simp
    from k take1_drop [OF kf] have "f ! k \<noteq> CHR ''.''" by auto
    with k dl s show ?thesis
      unfolding st by (intro exI [of _ k]) simp
  next
    case False
    then have st: "fst (splitext f) = f"
      unfolding splitext_def Let_def splitext_loop_eq by auto
    from assms obtain s e where f: "f = s @ e" and e: "e \<in> set image_extensions"
      by (auto simp: endswith_any_def list_ex_iff endswith_iff)
    from image_extension_shape [OF e]
    have e3: "rfind e (CHR ''/'') = - 1" "e \<noteq> []" "last e \<noteq> CHR ''.''" by simp_all
    then have sp: "rfind f (CHR ''/'') = rfind s (CHR ''/'')" by (simp add: f rfind_append)
    have a: "rfind s (CHR ''/'') < int (length s)" using rfind_bounds [of s "CHR ''/''"] by simp
    have b: "length s < length f" using e3 by (simp add: f)
    have "f \<noteq> []" using e3 f by simp
    then have "f ! (length f - 1) = last f" by (simp add: last_conv_nth)
    also have "last f = last e" using e3 f by simp
    finally have c: "f ! (length f - 1) \<noteq> CHR ''.''" using e3 by simp
    from a b have d: "nat (rfind s (CHR ''/'') + 1) \<le> length f - 1" by linarith
    from b have "length f - 1 < length f" by linarith
    with c d show ?thesis
      unfolding st sp by blast
  qed
qed

lemma output_name_splits:
  "endswith_any f image_extensions \<Longrightarrow> splitext (fst (splitext f) @ ''.jpg'') = (fst (splitext f), ''.jpg'')"
  by (rule splitext_forced_jpg) (rule stem_has_basename_char)

section \<open>Rounding to binary64\<close>

lemma bitlen_rat_bounds:
  assumes "0 < (a::int)"
  shows "2 powi (bitlen a - 1) \<le> (of_int a :: rat)" and "(of_int a :: rat) < 2 powi (bitlen a)"
proof -
  from bitlen_bounds [OF assms]
  have l: "2 ^ nat (bitlen a - 1) \<le> a" and u: "a < 2 ^ nat (bitlen a)" by simp_all
  have p: "1 \<le> bitlen a" using assms by (simp add: bitlen_alt_def)
  have "(2::rat) powi (bitlen a - 1) = 2 ^ nat (bitlen a - 1)"
    using p by (simp add: power_int_def)
  also have "\<dots> = of_int (2 ^ nat (bitlen a - 1))" by simp
  also have "\<dots> \<le> of_int a" using l by (simp only: of_int_le_iff)
  finally show "2 powi (bitlen a - 1) \<le> (of_int a :: rat)" .
  have "(of_int a :: rat) < of_int (2 ^ nat (bitlen a))" using u by (simp only: of_int_less_iff)
  also have "\<dots> = 2 ^ nat (bitlen a)" by simp
  also have "\<dots> = 2 powi (bitlen a)" using p by (simp add: power_int_def)
  finally show "(of_int a :: rat) < 2 powi (bitlen a)" .
qed

lemma ilog2_bounds:
  assumes "0 < x"
  shows "2 powi (ilog2 x) \<le> x" and "x < 2 powi (ilog2 x + 1)"
proof -
  obtain a b where q: "quotient_of x = (a, b)" by (cases "quotient_of x")
  have b: "0 < b" using q by (rule quotient_of_denom_pos)
  have x: "x = of_int a / of_int b" using q by (rule quotient_of_div)
  have a: "0 < a"
  proof (rule ccontr)
    assume "\<not> 0 < a"
    then have "(of_int a :: rat) \<le> 0" by simp
    with b have "x \<le> 0" unfolding x by (simp add: divide_nonpos_pos)
    with assms show False by simp
  qed
  let ?d = "bitlen a - bitlen b"
  note A = bitlen_rat_bounds [OF a] and B = bitlen_rat_bounds [OF b]
  have pos: "\<And>k. (0::rat) < 2 powi k" by simp
  have "2 powi (bitlen a - 1) / 2 powi (bitlen b) \<le> (of_int a :: rat) / of_int b"
    using A(1) B(2) a b by (intro frac_le) (auto simp: less_imp_le)
  moreover have "(2::rat) powi (bitlen a - 1) / 2 powi (bitlen b) = 2 powi (?d - 1)"
  proof -
    have e: "?d - 1 = (bitlen a - 1) - bitlen b" by simp
    show ?thesis unfolding e by (rule power_int_diff [symmetric]) simp
  qed
  ultimately have lo: "2 powi (?d - 1) \<le> x" unfolding x by simp
  have "(of_int a :: rat) / of_int b < 2 powi (bitlen a) / 2 powi (bitlen b - 1)"
    using A(2) B(1) a b by (intro frac_less) auto
  moreover have "(2::rat) powi (bitlen a) / 2 powi (bitlen b - 1) = 2 powi (?d + 1)"
  proof -
    have e: "?d + 1 = bitlen a - (bitlen b - 1)" by simp
    show ?thesis unfolding e by (rule power_int_diff [symmetric]) simp
  qed
  ultimately have hi: "x < 2 powi (?d + 1)" unfolding x by simp
  have i: "ilog2 x = (if 2 powi ?d \<le> x then ?d else ?d - 1)"
    by (simp add: ilog2_def q Let_def)
  show "2 powi (ilog2 x) \<le> x" using lo by (simp add: i)
  show "x < 2 powi (ilog2 x + 1)" using hi by (auto simp: i not_le)
qed

lemma round_half_even_error: "\<bar>of_int (round_half_even y) - y\<bar> \<le> 1 / 2"
proof -
  have "of_int \<lfloor>y\<rfloor> \<le> y" "y < of_int \<lfloor>y\<rfloor> + 1" by linarith+
  then show ?thesis
    by (auto simp: round_half_even_def Let_def abs_le_iff)
qed

lemma round_half_even_nonneg: "0 \<le> y \<Longrightarrow> 0 \<le> round_half_even y"
  by (auto simp: round_half_even_def Let_def)

lemma round_half_even_of_int: "round_half_even (of_int m) = m"
  by (simp add: round_half_even_def Let_def)

lemma half_ulp_bound:
  assumes "x \<noteq> 0"
  shows "2 powi ulp_exponent x / 2 \<le> \<bar>x\<bar> / 2 ^ 53 + 1 / 2 ^ 1075"
proof (cases "- 1074 \<le> ilog2 \<bar>x\<bar> - 52")
  case True
  then have e: "ulp_exponent x = ilog2 \<bar>x\<bar> - 52" by (simp add: ulp_exponent_def)
  have "(2::rat) powi (ilog2 \<bar>x\<bar> - 52) = 2 powi ilog2 \<bar>x\<bar> / 2 powi 52"
    by (rule power_int_diff) simp
  also have "\<dots> \<le> \<bar>x\<bar> / 2 powi 52"
    using ilog2_bounds(1) [of "\<bar>x\<bar>"] assms by (simp add: divide_right_mono)
  finally have "(2::rat) powi ulp_exponent x \<le> \<bar>x\<bar> / 2 ^ 52" unfolding e by simp
  then have "(2::rat) powi ulp_exponent x / 2 \<le> \<bar>x\<bar> / 2 ^ 53" by simp
  then show ?thesis by (rule order_trans) simp
next
  case False
  then have e: "ulp_exponent x = - 1074" by (simp add: ulp_exponent_def)
  have "(2::rat) powi (- 1074) / 2 = 1 / 2 ^ 1075"
    by (simp add: power_int_minus field_simps)
  then show ?thesis unfolding e by simp
qed

lemma round_binary64_error: "\<bar>round_binary64 x - x\<bar> \<le> \<bar>x\<bar> / 2 ^ 53 + 1 / 2 ^ 1075"
proof (cases "x = 0")
  case True
  then show ?thesis by (simp add: round_binary64_def)
next
  case False
  let ?p = "(2::rat) powi ulp_exponent x"
  let ?R = "of_int (round_half_even (x / ?p)) :: rat"
  have p: "0 < ?p" by simp
  have "\<bar>?R * ?p - x\<bar> = \<bar>?R - x / ?p\<bar> * ?p"
  proof -
    have "?R * ?p - x = (?R - x / ?p) * ?p" using p by (simp add: field_simps)
    then show ?thesis using p by (simp add: abs_mult)
  qed
  also have "\<dots> \<le> 1 / 2 * ?p"
    using round_half_even_error [of "x / ?p"] p by (intro mult_right_mono) auto
  finally have "\<bar>?R * ?p - x\<bar> \<le> ?p / 2" by simp
  with half_ulp_bound [OF False] show ?thesis
    using False by (simp add: round_binary64_def)
qed

lemma round_binary64_nonneg: "0 \<le> x \<Longrightarrow> 0 \<le> round_binary64 x"
  by (simp add: round_binary64_def round_half_even_nonneg)

lemma round_binary64_of_int:
  assumes "0 \<le> n" and "n < 2 ^ 53"
  shows "round_binary64 (of_int n) = of_int n"
proof (cases "n = 0")
  case True
  then show ?thesis by (simp add: round_binary64_def)
next
  case False
  let ?x = "of_int n :: rat"
  let ?k = "ilog2 \<bar>?x\<bar>"
  from False assms have x1: "1 \<le> ?x" and xa: "\<bar>?x\<bar> = ?x" by simp_all
  have xu: "?x < 2 powi 53"
  proof -
    have "?x < of_int (2 ^ 53)" using assms(2) by (simp only: of_int_less_iff)
    then show ?thesis by simp
  qed
  from ilog2_bounds [of "\<bar>?x\<bar>"] x1 xa
  have lo: "2 powi ?k \<le> ?x" and hi: "?x < 2 powi (?k + 1)" by simp_all
  have k53: "?k < 53"
  proof (rule ccontr)
    assume "\<not> ?k < 53"
    then have "(2::rat) powi 53 \<le> 2 powi ?k" by (intro power_int_increasing) simp_all
    with lo xu show False by simp
  qed
  have k0: "0 \<le> ?k"
  proof (rule ccontr)
    assume "\<not> 0 \<le> ?k"
    then have "(2::rat) powi (?k + 1) \<le> 2 powi 0" by (intro power_int_increasing) simp_all
    with hi x1 show False by simp
  qed
  have e: "ulp_exponent ?x = ?k - 52" using k0 by (simp add: ulp_exponent_def)
  let ?m = "nat (52 - ?k)"
  define p where "p = (2::rat) powi (?k - 52)"
  have pm: "p = 1 / 2 ^ ?m"
  proof -
    have "?k - 52 = - int ?m" using k53 by simp
    then have "p = 2 powi (- int ?m)" by (simp add: p_def)
    also have "\<dots> = inverse (2 powi int ?m)" by (rule power_int_minus)
    also have "\<dots> = 1 / 2 ^ ?m" by (simp only: power_int_of_nat inverse_eq_divide)
    finally show ?thesis .
  qed
  have q: "?x / p = of_int (n * 2 ^ ?m)" unfolding pm by simp
  have "round_binary64 ?x = of_int (round_half_even (?x / p)) * p"
    using False by (simp add: round_binary64_def e p_def)
  then have "round_binary64 ?x = of_int (n * 2 ^ ?m) * p"
    by (simp only: q round_half_even_of_int)
  then show ?thesis by (simp add: pm)
qed

lemma to_float_finite:
  "\<bar>round_binary64 x\<bar> < 2 ^ 1024 \<Longrightarrow> to_float x = Finite (round_binary64 x)"
  by (auto simp: to_float_def Let_def abs_less_iff)

lemma round_binary64_abs: "\<bar>round_binary64 x\<bar> \<le> \<bar>x\<bar> + \<bar>x\<bar> / 2 ^ 53 + 1 / 2 ^ 1075"
  using round_binary64_error [of x] by linarith

section \<open>The arithmetic of the Resizer\<close>

lemma to_float_small:
  assumes "\<bar>x\<bar> \<le> 2 ^ 1000"
  shows "to_float x = Finite (round_binary64 x)"
proof (rule to_float_finite)
  have "\<bar>x\<bar> / 2 ^ 53 \<le> \<bar>x\<bar>" by (simp add: field_simps)
  with round_binary64_abs [of x] assms
  have "\<bar>round_binary64 x\<bar> \<le> 2 ^ 1000 + 2 ^ 1000 + 1 / 2 ^ 1075" by linarith
  also have "\<dots> < (2::rat) ^ 1024" by simp
  finally show "\<bar>round_binary64 x\<bar> < 2 ^ 1024" .
qed

lemma round_binary64_upper:
  "0 \<le> x \<Longrightarrow> round_binary64 x \<le> x * (1 + 1 / 2 ^ 53) + 1 / 2 ^ 1075"
  using round_binary64_error [of x] by (simp add: algebra_simps abs_le_iff)

lemma float_of_int_exact:
  assumes "0 \<le> n" and "n < 2 ^ 53"
  shows "float_of_int n = Inr (Finite (of_int n))"
proof -
  have "(of_int n :: rat) < of_int (2 ^ 53)" using assms(2) by (simp only: of_int_less_iff)
  then have "\<bar>of_int n :: rat\<bar> \<le> 2 ^ 1000" using assms(1) by simp
  then have "to_float (of_int n) = Finite (round_binary64 (of_int n))" by (rule to_float_small)
  then show ?thesis
    by (simp add: float_of_int_def round_binary64_of_int [OF assms])
qed

lemma ratio_value:
  assumes "0 < W" and "W < w"
  shows "py_truediv W w = Inr (Finite (round_binary64 (of_int W / of_int w)))"
proof -
  let ?q = "of_int W / of_int w :: rat"
  have "0 \<le> ?q" "?q \<le> 1" using assms by simp_all
  then have "\<bar>?q\<bar> \<le> 2 ^ 1000" by simp
  then have "to_float ?q = Finite (round_binary64 ?q)" by (rule to_float_small)
  then show ?thesis using assms by (simp add: py_truediv_def)
qed

lemma ratio_bounds:
  assumes "0 < W" and "W < w"
  shows "0 \<le> round_binary64 (of_int W / of_int w)"
    and "round_binary64 (of_int W / of_int w) \<le> 2"
proof -
  let ?q = "of_int W / of_int w :: rat"
  have q: "0 \<le> ?q" "?q \<le> 1" using assms by simp_all
  show "0 \<le> round_binary64 ?q" using q(1) by (rule round_binary64_nonneg)
  have "?q * (1 + 1 / 2 ^ 53) \<le> 1 * (1 + 1 / 2 ^ 53)"
    using q(2) by (intro mult_right_mono) simp_all
  with round_binary64_upper [OF q(1)] show "round_binary64 ?q \<le> 2" by simp
qed

lemma new_height_value:
  assumes "0 < W" and "W < w" and "0 \<le> h" and "h < 2 ^ 53"
  shows "new_height W w h =
           Inr \<lfloor>round_binary64 (of_int h * round_binary64 (of_int W / of_int w))\<rfloor>"
proof -
  let ?r = "round_binary64 (of_int W / of_int w)"
  let ?h = "of_int h :: rat"
  note r = ratio_bounds [OF assms(1,2)]
  have h: "0 \<le> ?h" "?h \<le> 2 ^ 53"
  proof -
    show "0 \<le> ?h" using assms(3) by simp
    have "?h < of_int (2 ^ 53)" using assms(4) by (simp only: of_int_less_iff)
    then show "?h \<le> 2 ^ 53" by simp
  qed
  have p0: "0 \<le> ?h * ?r" using h(1) r(1) by simp
  have "?h * ?r \<le> 2 ^ 53 * 2" using h r by (intro mult_mono) simp_all
  with p0 have "\<bar>?h * ?r\<bar> \<le> 2 ^ 1000" by simp
  then have m: "to_float (?h * ?r) = Finite (round_binary64 (?h * ?r))"
    by (rule to_float_small)
  have z: "0 \<le> round_binary64 (?h * ?r)" using p0 by (rule round_binary64_nonneg)
  show ?thesis
    by (simp add: new_height_def ratio_value [OF assms(1,2)] float_of_int_exact [OF assms(3,4)]
          m py_int_def z)
qed

lemma new_height_zero:
  assumes W: "0 < (W::int)" and Ww: "W < w" and h0: "0 \<le> h" and hW: "h * W < w" and w31: "w < 2 ^ 31"
  shows "new_height W w h = Inr 0"
proof -
  let ?q = "of_int W / of_int w :: rat"
  let ?r = "round_binary64 ?q"
  let ?h = "of_int h :: rat"
  let ?u = "1 / 2 ^ 53 :: rat" and ?t = "1 / 2 ^ 1075 :: rat"
  have hw: "h < w"
  proof -
    have "h * 1 \<le> h * W" using W h0 by (intro mult_left_mono) simp_all
    with hW show ?thesis by simp
  qed
  then have h53: "h < 2 ^ 53" using w31 by simp
  have wpos: "(0::rat) < of_int w" using W Ww by simp
  have q0: "0 \<le> ?q" using W wpos by simp
  have hr: "0 \<le> ?h" using h0 by simp
  have hq: "?h * ?q \<le> 1 - 1 / 2 ^ 31"
  proof -
    have "h * W \<le> w - 1" using hW by simp
    then have "(of_int (h * W) :: rat) \<le> of_int (w - 1)" by (simp only: of_int_le_iff)
    then have "?h * of_int W \<le> of_int w - 1" by simp
    then have "?h * of_int W / of_int w \<le> (of_int w - 1) / of_int w"
      using wpos by (simp add: divide_right_mono)
    also have "\<dots> = 1 - 1 / of_int w" using wpos by (simp add: field_simps)
    also have "\<dots> \<le> 1 - 1 / 2 ^ 31"
    proof -
      have "(of_int w :: rat) < of_int (2 ^ 31)" using w31 by (simp only: of_int_less_iff)
      then have "(of_int w :: rat) \<le> 2 ^ 31" by simp
      then have "1 / 2 ^ 31 \<le> 1 / (of_int w :: rat)" using wpos by (intro divide_left_mono) simp_all
      then show ?thesis by simp
    qed
    finally show ?thesis by simp
  qed
  have ht: "?h * ?t \<le> 2 ^ 31 * ?t"
  proof -
    have "h < 2 ^ 31" using hw w31 by simp
    then have "?h < of_int (2 ^ 31)" by (simp only: of_int_less_iff)
    then have "?h \<le> 2 ^ 31" by simp
    then show ?thesis by (intro mult_right_mono) simp_all
  qed
  have "?h * ?r \<le> ?h * (?q * (1 + ?u) + ?t)"
    using round_binary64_upper [OF q0] hr by (intro mult_left_mono)
  also have "\<dots> = (?h * ?q) * (1 + ?u) + ?h * ?t" by (simp add: algebra_simps)
  also have "\<dots> \<le> (1 - 1 / 2 ^ 31) * (1 + ?u) + 2 ^ 31 * ?t"
    using hq ht by (intro add_mono mult_right_mono) simp_all
  finally have p: "?h * ?r \<le> (1 - 1 / 2 ^ 31) * (1 + ?u) + 2 ^ 31 * ?t" .
  have p0: "0 \<le> ?h * ?r" using hr round_binary64_nonneg [OF q0] by simp
  have "round_binary64 (?h * ?r) \<le> (?h * ?r) * (1 + ?u) + ?t"
    using p0 by (rule round_binary64_upper)
  also have "\<dots> \<le> ((1 - 1 / 2 ^ 31) * (1 + ?u) + 2 ^ 31 * ?t) * (1 + ?u) + ?t"
    using p by (intro add_mono mult_right_mono) simp_all
  also have "\<dots> < 1" by simp
  finally have z1: "round_binary64 (?h * ?r) < 1" .
  have z0: "0 \<le> round_binary64 (?h * ?r)" using p0 by (rule round_binary64_nonneg)
  from z0 z1 have "\<lfloor>round_binary64 (?h * ?r)\<rfloor> = 0" by (simp add: floor_eq_iff)
  with new_height_value [OF W Ww h0 h53] show ?thesis by simp
qed

section \<open>The Resizer\<close>

text \<open>
  C6: for a positive maximal width, an image that is not wider is returned as it is; a
  wider one is resampled with the Lanczos filter to exactly the maximal width and to the
  height that the specification's formula gives, the floating-point product truncated.
  The height is below \<open>2^53\<close>, as every size that Pillow holds is.
\<close>

theorem resizer_output:
  assumes "0 < max_width" and "0 \<le> height img" and "height img < 2 ^ 53"
  shows "resizer w max_width img =
           (if width img \<le> max_width then Inr img
            else (case Image_resize w img
                         (max_width, spec_resized_height max_width (width img) (height img))
                         LANCZOS of
                    Inl e \<Rightarrow> Inl e
                  | Inr px \<Rightarrow>
                      Inr \<lparr>mode = mode img, width = max_width,
                           height = spec_resized_height max_width (width img) (height img),
                           pixels = px\<rparr>))"
proof (cases "width img \<le> max_width")
  case True
  then show ?thesis by (simp add: resizer_def)
next
  case False
  then have "max_width < width img" by simp
  from new_height_value [OF assms(1) this assms(2,3)]
  have "new_height max_width (width img) (height img) =
          Inr (spec_resized_height max_width (width img) (height img))"
    by (simp add: spec_resized_height_def)
  with False show ?thesis by (simp add: resizer_def)
qed

lemma spec_resized_height_example: "spec_resized_height 2000 3000 2000 = 1333"
  by code_simp

theorem resizer_output_witness:
  "resizer sample_photos_world 2000
     \<lparr>mode = ''RGB'', width = 3000, height = 2000, pixels = FromFile ''in/a.png''\<rparr> =
   Inr \<lparr>mode = ''RGB'', width = 2000, height = 1333,
        pixels = Resampled (FromFile ''in/a.png'') (2000, 1333) LANCZOS\<rparr> \<and>
   resizer sample_photos_world 2000
     \<lparr>mode = ''RGB'', width = 500, height = 500, pixels = FromFile ''in/b.jpg''\<rparr> =
   Inr \<lparr>mode = ''RGB'', width = 500, height = 500, pixels = FromFile ''in/b.jpg''\<rparr>"
proof -
  let ?a = "\<lparr>mode = ''RGB'', width = 3000, height = 2000, pixels = FromFile ''in/a.png''\<rparr>"
  let ?b = "\<lparr>mode = ''RGB'', width = 500, height = 500, pixels = FromFile ''in/b.jpg''\<rparr>"
  have a: "(0::int) < 2000" "0 \<le> height ?a" "height ?a < 2 ^ 53" by simp_all
  have b: "0 \<le> height ?b" "height ?b < 2 ^ 53" by simp_all
  from resizer_output [OF a, of sample_photos_world] resizer_output [OF a(1) b, of sample_photos_world]
  show ?thesis
    by (simp add: spec_resized_height_example sample_photos_world_def sample_world_def)
qed

text \<open>
  The product is a floating-point one, as the specification says: it can lie below the
  exact product, and the truncation then gives one less than the exact floor.
\<close>

lemma float_product_below_exact:
  "spec_resized_height 1 49 49 = 0 \<and> \<lfloor>(49::rat) * (1 / 49)\<rfloor> = 1"
  by code_simp

section \<open>The ColorNormalizer\<close>

lemma color_normalizer_size:
  "color_normalizer w img = Inr out \<Longrightarrow> width out = width img \<and> height out = height img"
  by (auto simp: color_normalizer_def Let_def split: if_splits sum.splits)

text \<open>
  C7, as the specification words it: every input is mapped to opaque standard RGB, and the
  stage never errors. On the code a greyscale image (mode \<open>L\<close>) is outside the three
  modes of line 56 and leaves the stage in mode \<open>L\<close>; and the stage raises whatever one
  of its library calls raises, here \<open>split\<close> on a truncated file.
\<close>

theorem color_normalizer_counterexample:
  "color_normalizer sample_photos_world
     \<lparr>mode = ''L'', width = 640, height = 480, pixels = FromFile ''in/grey.jpg''\<rparr> =
     Inr \<lparr>mode = ''L'', width = 640, height = 480, pixels = FromFile ''in/grey.jpg''\<rparr> \<and>
   color_normalizer
     (sample_photos_world\<lparr>Image_split := \<lambda>img. Inl (Exn ''OSError'' ''image file is truncated'')\<rparr>)
     \<lparr>mode = ''RGBA'', width = 3000, height = 2000, pixels = FromFile ''in/a.png''\<rparr> =
     Inl (Exn ''OSError'' ''image file is truncated'')"
  by (simp add: color_normalizer_def last_band_def sample_photos_world_def sample_world_def)

text \<open>
  C7, amended: every mode other than \<open>RGBA\<close>, \<open>LA\<close> and \<open>P\<close> passes through unchanged,
  without an error. For these three the result, when there is one, is an \<open>RGB\<close> image of
  the same dimensions: the paste onto a white canvas of the source, which for \<open>P\<close> is
  first converted to \<open>RGBA\<close>; the mask is the last band of the source for \<open>RGBA\<close> and
  \<open>P\<close> and none for \<open>LA\<close>. The only errors are those that \<open>Image.new\<close>, \<open>convert\<close>,
  \<open>split()[-1]\<close> or \<open>paste\<close> raise.
\<close>

theorem color_normalizer_modes:
  "(mode img \<notin> set [''RGBA'', ''LA'', ''P''] \<longrightarrow> color_normalizer w img = Inr img) \<and>
   (mode img \<in> set [''RGBA'', ''LA'', ''P''] \<and> color_normalizer w img = Inr out \<longrightarrow>
      mode out = ''RGB'' \<and> width out = width img \<and> height out = height img \<and>
      (\<exists>white src alpha.
         Image_new w ''RGB'' (width img, height img) (255, 255, 255) = Inr white \<and>
         Image_paste w \<lparr>mode = ''RGB'', width = width img, height = height img, pixels = white\<rparr>
           src alpha = Inr (pixels out) \<and>
         (mode img = ''LA'' \<longrightarrow> src = img \<and> alpha = None) \<and>
         (mode img = ''RGBA'' \<longrightarrow>
            src = img \<and> (\<exists>m. last_band w img = Inr m \<and> alpha = Some m)) \<and>
         (mode img = ''P'' \<longrightarrow>
            mode src = ''RGBA'' \<and> width src = width img \<and> height src = height img \<and>
            Image_convert w img ''RGBA'' = Inr (pixels src) \<and>
            (\<exists>m. last_band w src = Inr m \<and> alpha = Some m)))) \<and>
   (color_normalizer w img = Inl e \<longrightarrow>
      Image_new w ''RGB'' (width img, height img) (255, 255, 255) = Inl e \<or>
      Image_convert w img ''RGBA'' = Inl e \<or>
      (\<exists>src. last_band w src = Inl e) \<or>
      (\<exists>canvas src alpha. Image_paste w canvas src alpha = Inl e))"
proof (intro conjI impI)
  assume "mode img \<notin> set [''RGBA'', ''LA'', ''P'']"
  then show "color_normalizer w img = Inr img" by (simp add: color_normalizer_def)
next
  assume a: "mode img \<in> set [''RGBA'', ''LA'', ''P''] \<and> color_normalizer w img = Inr out"
  then show "mode out = ''RGB''"
    by (auto simp: color_normalizer_def Let_def split: if_splits sum.splits)
  from a show "width out = width img"
    by (auto simp: color_normalizer_def Let_def split: if_splits sum.splits)
  from a show "height out = height img"
    by (auto simp: color_normalizer_def Let_def split: if_splits sum.splits)
  from a obtain white where w: "Image_new w ''RGB'' (width img, height img) (255, 255, 255) = Inr white"
    by (auto simp: color_normalizer_def split: sum.splits)
  let ?bg = "\<lparr>mode = ''RGB'', width = width img, height = height img, pixels = white\<rparr>"
  from a consider "mode img = ''LA''" | "mode img = ''RGBA''" | "mode img = ''P''" by auto
  then show "\<exists>white src alpha.
         Image_new w ''RGB'' (width img, height img) (255, 255, 255) = Inr white \<and>
         Image_paste w \<lparr>mode = ''RGB'', width = width img, height = height img, pixels = white\<rparr>
           src alpha = Inr (pixels out) \<and>
         (mode img = ''LA'' \<longrightarrow> src = img \<and> alpha = None) \<and>
         (mode img = ''RGBA'' \<longrightarrow>
            src = img \<and> (\<exists>m. last_band w img = Inr m \<and> alpha = Some m)) \<and>
         (mode img = ''P'' \<longrightarrow>
            mode src = ''RGBA'' \<and> width src = width img \<and> height src = height img \<and>
            Image_convert w img ''RGBA'' = Inr (pixels src) \<and>
            (\<exists>m. last_band w src = Inr m \<and> alpha = Some m))"
  proof cases
    case 1
    with a w have "Image_paste w ?bg img None = Inr (pixels out)"
      by (auto simp: color_normalizer_def Let_def split: sum.splits)
    with w 1 show ?thesis by (intro exI [of _ white] exI [of _ img] exI [of _ None]) simp
  next
    case 2
    with a w obtain m where m: "last_band w img = Inr m"
      and p: "Image_paste w ?bg img (Some m) = Inr (pixels out)"
      by (auto simp: color_normalizer_def Let_def split: sum.splits)
    with w 2 show ?thesis by (intro exI [of _ white] exI [of _ img] exI [of _ "Some m"]) simp
  next
    case 3
    with a w obtain px where c: "Image_convert w img ''RGBA'' = Inr px"
      by (auto simp: color_normalizer_def Let_def split: sum.splits)
    let ?src = "img\<lparr>mode := ''RGBA'', pixels := px\<rparr>"
    from a w 3 c obtain m where m: "last_band w ?src = Inr m"
      and p: "Image_paste w ?bg ?src (Some m) = Inr (pixels out)"
      by (auto simp: color_normalizer_def Let_def split: sum.splits)
    with w 3 c show ?thesis by (intro exI [of _ white] exI [of _ ?src] exI [of _ "Some m"]) simp
  qed
next
  assume "color_normalizer w img = Inl e"
  then show "Image_new w ''RGB'' (width img, height img) (255, 255, 255) = Inl e \<or>
      Image_convert w img ''RGBA'' = Inl e \<or>
      (\<exists>src. last_band w src = Inl e) \<or>
      (\<exists>canvas src alpha. Image_paste w canvas src alpha = Inl e)"
    by (auto simp: color_normalizer_def Let_def split: if_splits sum.splits)
qed

theorem color_normalizer_modes_witness:
  "color_normalizer sample_photos_world
     \<lparr>mode = ''RGB'', width = 500, height = 500, pixels = FromFile ''in/b.jpg''\<rparr> =
     Inr \<lparr>mode = ''RGB'', width = 500, height = 500, pixels = FromFile ''in/b.jpg''\<rparr> \<and>
   color_normalizer sample_photos_world
     \<lparr>mode = ''RGBA'', width = 3000, height = 2000, pixels = FromFile ''in/a.png''\<rparr> =
     Inr \<lparr>mode = ''RGB'', width = 3000, height = 2000,
          pixels = Pasted (Canvas (255, 255, 255)) (FromFile ''in/a.png'')
                     (Some (Band (FromFile ''in/a.png'') 3))\<rparr> \<and>
   color_normalizer sample_photos_world
     \<lparr>mode = ''P'', width = 64, height = 64, pixels = FromFile ''in/p.png''\<rparr> =
     Inr \<lparr>mode = ''RGB'', width = 64, height = 64,
          pixels = Pasted (Canvas (255, 255, 255)) (Converted (FromFile ''in/p.png'') ''RGBA'')
                     (Some (Band (Converted (FromFile ''in/p.png'') ''RGBA'') 3))\<rparr> \<and>
   color_normalizer sample_photos_world
     \<lparr>mode = ''LA'', width = 64, height = 64, pixels = FromFile ''in/la.png''\<rparr> =
     Inr \<lparr>mode = ''RGB'', width = 64, height = 64,
          pixels = Pasted (Canvas (255, 255, 255)) (FromFile ''in/la.png'') None\<rparr>"
proof -
  let ?b = "\<lparr>mode = ''RGB'', width = 500, height = 500, pixels = FromFile ''in/b.jpg''\<rparr>"
  have "mode ?b \<notin> set [''RGBA'', ''LA'', ''P'']" by simp
  with color_normalizer_modes [of ?b sample_photos_world]
  have b: "color_normalizer sample_photos_world ?b = Inr ?b" by blast
  have rest:
    "color_normalizer sample_photos_world
       \<lparr>mode = ''RGBA'', width = 3000, height = 2000, pixels = FromFile ''in/a.png''\<rparr> =
       Inr \<lparr>mode = ''RGB'', width = 3000, height = 2000,
            pixels = Pasted (Canvas (255, 255, 255)) (FromFile ''in/a.png'')
                       (Some (Band (FromFile ''in/a.png'') 3))\<rparr> \<and>
     color_normalizer sample_photos_world
       \<lparr>mode = ''P'', width = 64, height = 64, pixels = FromFile ''in/p.png''\<rparr> =
       Inr \<lparr>mode = ''RGB'', width = 64, height = 64,
            pixels = Pasted (Canvas (255, 255, 255)) (Converted (FromFile ''in/p.png'') ''RGBA'')
                       (Some (Band (Converted (FromFile ''in/p.png'') ''RGBA'') 3))\<rparr> \<and>
     color_normalizer sample_photos_world
       \<lparr>mode = ''LA'', width = 64, height = 64, pixels = FromFile ''in/la.png''\<rparr> =
       Inr \<lparr>mode = ''RGB'', width = 64, height = 64,
            pixels = Pasted (Canvas (255, 255, 255)) (FromFile ''in/la.png'') None\<rparr>"
    by (simp add: color_normalizer_def last_band_def sample_photos_world_def sample_world_def)
  from b rest show ?thesis by (rule conjI)
qed

section \<open>The sizes that the Reporter prints\<close>

lemma round_binary64_le:
  assumes "\<bar>x\<bar> \<le> B" and "1 \<le> B"
  shows "\<bar>round_binary64 x\<bar> \<le> 4 * B"
proof -
  have "\<bar>x\<bar> / 2 ^ 53 \<le> \<bar>x\<bar>" by (simp add: field_simps)
  moreover have "(1::rat) / 2 ^ 1075 \<le> 1" by simp
  ultimately show ?thesis using round_binary64_abs [of x] assms by linarith
qed

lemma py_truediv_value:
  assumes "b \<noteq> 0" and "\<bar>of_int a / of_int b :: rat\<bar> \<le> 2 ^ 1000"
  shows "py_truediv a b = Inr (Finite (round_binary64 (of_int a / of_int b)))"
  using assms by (simp add: py_truediv_def to_float_small)

lemma megabytes_value:
  assumes "0 \<le> n" and "n \<le> 2 ^ 900"
  shows "megabytes n = Inr (Finite (round_binary64 (round_binary64 (of_int n / 1024) / 1024)))"
proof -
  let ?x = "of_int n / 1024 :: rat"
  have "(of_int n :: rat) \<le> of_int (2 ^ 900)" using assms(2) by (simp only: of_int_le_iff)
  then have n: "(of_int n :: rat) \<le> 2 ^ 900" by simp
  have x: "\<bar>?x\<bar> \<le> 2 ^ 900" using assms(1) n by simp
  then have "\<bar>?x\<bar> \<le> 2 ^ 1000" by simp
  then have t: "py_truediv n 1024 = Inr (Finite (round_binary64 ?x))"
    using py_truediv_value [of 1024 n] by simp
  have "\<bar>round_binary64 ?x\<bar> \<le> 4 * 2 ^ 900" using x by (rule round_binary64_le) simp
  then have "\<bar>round_binary64 ?x / 1024\<bar> \<le> 2 ^ 1000" by simp
  then have "to_float (round_binary64 ?x / 1024) = Finite (round_binary64 (round_binary64 ?x / 1024))"
    by (rule to_float_small)
  then show ?thesis by (simp add: megabytes_def t float_div_def)
qed

lemma reduction_percent_value:
  assumes "0 \<le> c" and "c \<le> 2 ^ 900" and "0 < original"
  shows "reduction_percent c original =
           Inr (Finite (round_binary64
                  (round_binary64 (1 - round_binary64 (of_int c / of_int original)) * 100)))"
proof -
  let ?q = "of_int c / of_int original :: rat"
  have "(of_int c :: rat) \<le> of_int (2 ^ 900)" using assms(2) by (simp only: of_int_le_iff)
  then have c: "(of_int c :: rat) \<le> 2 ^ 900" by simp
  have o: "(1::rat) \<le> of_int original" using assms(3) by simp
  have "?q \<le> of_int c / 1" using assms(1) o by (intro divide_left_mono) simp_all
  with c assms(1,3) have q: "\<bar>?q\<bar> \<le> 2 ^ 900" by simp
  then have "\<bar>?q\<bar> \<le> 2 ^ 1000" by simp
  with assms(3) have t: "py_truediv c original = Inr (Finite (round_binary64 ?q))"
    by (intro py_truediv_value) simp_all
  have r: "\<bar>round_binary64 ?q\<bar> \<le> 4 * 2 ^ 900" using q by (rule round_binary64_le) simp
  then have d: "\<bar>1 - round_binary64 ?q\<bar> \<le> 8 * 2 ^ 900" by simp
  then have "\<bar>1 - round_binary64 ?q\<bar> \<le> 2 ^ 1000" by simp
  then have s: "to_float (1 - round_binary64 ?q) = Finite (round_binary64 (1 - round_binary64 ?q))"
    by (rule to_float_small)
  have "\<bar>round_binary64 (1 - round_binary64 ?q)\<bar> \<le> 4 * (8 * 2 ^ 900)"
    using d by (rule round_binary64_le) simp
  then have "\<bar>round_binary64 (1 - round_binary64 ?q) * 100\<bar> \<le> 2 ^ 1000"
    by (simp add: abs_mult)
  then have m: "to_float (round_binary64 (1 - round_binary64 ?q) * 100) =
                  Finite (round_binary64 (round_binary64 (1 - round_binary64 ?q) * 100))"
    by (rule to_float_small)
  show ?thesis by (simp add: reduction_percent_def t s m)
qed

section \<open>The loop and its report\<close>

lemma reduction_percent_zero:
  "reduction_percent c 0 = Inl (Exn ''ZeroDivisionError'' ''division by zero'')"
  by (simp add: reduction_percent_def py_truediv_def)

lemma error_lines_append: "error_lines (xs @ ys) = error_lines xs @ error_lines ys"
  by (induction xs rule: error_lines.induct) auto

lemma print_accepted:
  "print_error w (stdout st) l = None \<Longrightarrow> print w l st = (None, st\<lparr>stdout := stdout st @ [l]\<rparr>)"
  by (simp add: print_def)

lemma print_keeps:
  "disk (snd (print w l st)) = disk st \<and>
   total_original_size (snd (print w l st)) = total_original_size st \<and>
   total_compressed_size (snd (print w l st)) = total_compressed_size st"
  by (simp add: print_def split: option.splits)

lemma print_error_lines:
  "error_lines (stdout (snd (print w l st))) =
     error_lines (stdout st) @ (if fst (print w l st) = None then error_lines [l] else [])"
  by (simp add: print_def error_lines_append split: option.splits)

lemma size_accountant_error_lines:
  "error_lines (stdout (snd (size_accountant w i n f orig p st))) = error_lines (stdout st)"
  by (auto simp: size_accountant_def Let_def print_def error_lines_append
      split: sum.splits option.splits)

lemma encoder_stdout: "stdout (snd (encoder w out q f img st)) = stdout st"
  by (auto simp: encoder_def Let_def split: save_result.splits)

lemma pipeline_error_lines:
  "error_lines (stdout (snd (pipeline w out mw q i n f orig img st))) = error_lines (stdout st)"
proof -
  have "error_lines (stdout (snd (size_accountant w i n f orig p (snd (encoder w out q f small st))))) =
          error_lines (stdout st)" for p small
    by (simp add: size_accountant_error_lines encoder_stdout)
  then show ?thesis
    by (auto simp: pipeline_def split: sum.splits prod.splits)
       (metis encoder_stdout snd_conv)+
qed

lemma try_file_error_lines:
  "error_lines (stdout (snd (try_file w inp out mw q i n f st))) = error_lines (stdout st)"
  by (auto simp: try_file_def Let_def pipeline_error_lines split: sum.splits)

text \<open>The failures of each stage, as the \<open>try\<close> sees them.\<close>

lemma decode_failure:
  "Image_open w (disk st) (path_join inp f) = Inl e \<Longrightarrow>
   try_file w inp out mw q i n f st = (Inl e, st)"
  by (simp add: try_file_def Let_def)

lemma normalize_failure:
  "Image_open w (disk st) (path_join inp f) = Inr img \<Longrightarrow>
   getsize (disk st) (path_join inp f) = Inr sz \<Longrightarrow>
   color_normalizer w img = Inl e \<Longrightarrow>
   try_file w inp out mw q i n f st =
     (Inl e, st\<lparr>total_original_size := total_original_size st + sz\<rparr>)"
  by (simp add: try_file_def pipeline_def Let_def)

lemma resize_failure:
  "Image_open w (disk st) (path_join inp f) = Inr img \<Longrightarrow>
   getsize (disk st) (path_join inp f) = Inr sz \<Longrightarrow>
   color_normalizer w img = Inr rgb \<Longrightarrow>
   resizer w mw rgb = Inl e \<Longrightarrow>
   try_file w inp out mw q i n f st =
     (Inl e, st\<lparr>total_original_size := total_original_size st + sz\<rparr>)"
  by (simp add: try_file_def pipeline_def Let_def)

lemma encode_failure:
  "Image_open w (disk st) (path_join inp f) = Inr img \<Longrightarrow>
   getsize (disk st) (path_join inp f) = Inr sz \<Longrightarrow>
   color_normalizer w img = Inr rgb \<Longrightarrow>
   resizer w mw rgb = Inr small \<Longrightarrow>
   Image_save w (disk st) small (path_join out (output_filename f)) ''JPEG'' q True =
     SaveFailed e left \<Longrightarrow>
   try_file w inp out mw q i n f st =
     (Inl e, st\<lparr>total_original_size := total_original_size st + sz,
               disk := write_file (path_join out (output_filename f)) left (disk st)\<rparr>)"
  by (simp add: try_file_def pipeline_def encoder_def Let_def)

lemma handler:
  assumes "\<And>printed i n f e. print_error w printed (FileError i n f e) = None"
  shows "error_isolator w inp out mw q i n f st =
           (case try_file w inp out mw q i n f st of
              (Inl e, st1) \<Rightarrow> (None, Inl e, st1\<lparr>stdout := stdout st1 @ [FileError i n f e]\<rparr>)
            | (Inr sizes, st1) \<Rightarrow> (None, Inr sizes, st1))"
  by (simp add: error_isolator_def print_def assms split: prod.splits sum.splits)

lemma process_files_append:
  "process_files w inp out mw q i n (xs @ ys) st =
     (case process_files w inp out mw q i n xs st of
        (Some e, rs, st1) \<Rightarrow> (Some e, rs, st1)
      | (None, rs, st1) \<Rightarrow>
          (case process_files w inp out mw q (i + length xs) n ys st1 of
             (raised, rs2, st2) \<Rightarrow> (raised, rs @ rs2, st2)))"
proof (induction xs arbitrary: i st)
  case Nil
  then show ?case by (simp split: prod.splits)
next
  case (Cons x xs)
  show ?case
    by (simp add: Cons.IH split: prod.splits option.splits)
qed

lemma loop_attempts_every_file:
  assumes printable: "\<And>printed i n f e. print_error w printed (FileError i n f e) = None"
  shows "fst (process_files w inp out mw q i n fs st) = None \<and>
         map fst (fst (snd (process_files w inp out mw q i n fs st))) = fs \<and>
         error_lines (stdout (snd (snd (process_files w inp out mw q i n fs st)))) =
           error_lines (stdout st) @ failures (fst (snd (process_files w inp out mw q i n fs st)))"
proof (induction fs arbitrary: i st)
  case Nil
  then show ?case by simp
next
  case (Cons f fs)
  obtain r st1 where t: "try_file w inp out mw q i n f st = (r, st1)"
    by (cases "try_file w inp out mw q i n f st")
  have tl: "error_lines (stdout st1) = error_lines (stdout st)"
    using try_file_error_lines [of w inp out mw q i n f st] t by simp
  show ?case
  proof (cases r)
    case (Inl e)
    let ?st2 = "st1\<lparr>stdout := stdout st1 @ [FileError i n f e]\<rparr>"
    have e: "error_isolator w inp out mw q i n f st = (None, Inl e, ?st2)"
      by (simp add: handler [OF printable] t Inl)
    obtain x rs st3 where p: "process_files w inp out mw q (Suc i) n fs ?st2 = (x, rs, st3)"
      by (cases "process_files w inp out mw q (Suc i) n fs ?st2")
    from Cons.IH [of "Suc i" ?st2] show ?thesis
      unfolding p by (simp add: e p tl error_lines_append)
  next
    case (Inr sizes)
    have e: "error_isolator w inp out mw q i n f st = (None, Inr sizes, st1)"
      by (simp add: handler [OF printable] t Inr)
    obtain x rs st3 where p: "process_files w inp out mw q (Suc i) n fs st1 = (x, rs, st3)"
      by (cases "process_files w inp out mw q (Suc i) n fs st1")
    from Cons.IH [of "Suc i" st1] show ?thesis
      unfolding p by (simp add: e p tl)
  qed
qed

lemma loop_result_at:
  assumes printable: "\<And>printed i n f e. print_error w printed (FileError i n f e) = None"
    and k: "k < length fs"
  shows "snd (fst (snd (process_files w inp out mw q i n fs st)) ! k) =
           fst (try_file w inp out mw q (i + k) n (fs ! k)
                  (snd (snd (process_files w inp out mw q i n (take k fs) st))))"
proof -
  let ?P = "\<lambda>i xs st. process_files w inp out mw q i n xs st"
  have fs: "fs = take k fs @ (fs ! k # drop (Suc k) fs)"
    using k by (simp add: id_take_nth_drop [symmetric])
  obtain rs1 st1 where p1: "?P i (take k fs) st = (None, rs1, st1)"
    using loop_attempts_every_file [OF printable, of inp out mw q i n "take k fs" st]
    by (cases "?P i (take k fs) st") auto
  have l1: "length rs1 = k"
  proof -
    have "map fst rs1 = take k fs"
      using loop_attempts_every_file [OF printable, of inp out mw q i n "take k fs" st] p1 by simp
    then have "length rs1 = length (take k fs)" by (metis length_map)
    with k show ?thesis by simp
  qed
  obtain r stt where t: "try_file w inp out mw q (i + k) n (fs ! k) st1 = (r, stt)"
    by (cases "try_file w inp out mw q (i + k) n (fs ! k) st1")
  obtain st2 where e: "error_isolator w inp out mw q (i + k) n (fs ! k) st1 = (None, r, st2)"
    by (cases r) (simp_all add: handler [OF printable] t)
  obtain x rs3 st3 where p3: "?P (Suc (i + k)) (drop (Suc k) fs) st2 = (x, rs3, st3)"
    by (cases "?P (Suc (i + k)) (drop (Suc k) fs) st2")
  have "?P i (take k fs @ (fs ! k # drop (Suc k) fs)) st = (x, rs1 @ (fs ! k, r) # rs3, st3)"
    using k by (simp add: process_files_append p1 e p3 min_def)
  then have "?P i fs st = (x, rs1 @ (fs ! k, r) # rs3, st3)" using fs by simp
  then show ?thesis using l1 t p1 by (simp add: nth_append)
qed

section \<open>The summary\<close>

lemma statements_keeps:
  assumes "\<And>stmt s. stmt \<in> set stmts \<Longrightarrow> P (snd (stmt s)) = P s"
  shows "P (snd (statements stmts st)) = P st"
  using assms
proof (induction stmts arbitrary: st)
  case Nil
  then show ?case by simp
next
  case (Cons stmt stmts)
  obtain r st1 where s: "stmt st = (r, st1)" by (cases "stmt st")
  have 1: "P st1 = P st" using Cons.prems [of stmt st] s by simp
  have 2: "P (snd (statements stmts st1)) = P st1"
    by (rule Cons.IH) (simp add: Cons.prems)
  from 1 2 s show ?case by (cases r) simp_all
qed

lemma print_value_keeps:
  "disk (snd (print_value w l v st)) = disk st \<and>
   total_original_size (snd (print_value w l v st)) = total_original_size st \<and>
   total_compressed_size (snd (print_value w l v st)) = total_compressed_size st"
  by (cases v) (simp_all add: print_value_def print_keeps)

lemma summary_keeps:
  "disk (snd (summary w out st)) = disk st \<and>
   total_original_size (snd (summary w out st)) = total_original_size st \<and>
   total_compressed_size (snd (summary w out st)) = total_compressed_size st"
  unfolding summary_def
  by (intro conjI statements_keeps) (auto simp: print_keeps print_value_keeps)

section \<open>A batch with no decodable file\<close>

lemma to_float_zero: "to_float 0 = Finite 0"
  by (simp add: to_float_def round_binary64_def)

lemma megabytes_zero: "megabytes 0 = Inr (Finite 0)"
  by (simp add: megabytes_def py_truediv_def float_div_def to_float_zero)

lemma summary_zero_totals:
  assumes "\<And>printed l. print_error w printed l = None"
    and "total_original_size st = 0" and "total_compressed_size st = 0"
  shows "summary w out st =
           (Some (Exn ''ZeroDivisionError'' ''division by zero''),
            st\<lparr>stdout := stdout st @ [Rule, CompressionComplete, Rule, TotalOriginal (Finite 0),
                                       TotalCompressed (Finite 0), TotalSaved (Finite 0)]\<rparr>)"
  using assms
  by (simp add: summary_def print_value_def print_def megabytes_zero reduction_percent_zero)

lemma header_printed:
  assumes "\<And>printed l. print_error w printed l = None"
  shows "statements [print w a, print w b, print w c] st =
           (None, st\<lparr>stdout := stdout st @ [a, b, c]\<rparr>)"
  by (simp add: print_def assms)

lemma process_files_undecodable:
  assumes "\<And>printed l. print_error w printed l = None"
    and "\<And>f. f \<in> set fs \<Longrightarrow> isl (Image_open w (disk st) (path_join inp f))"
  shows "fst (process_files w inp out mw q i n fs st) = None \<and>
         disk (snd (snd (process_files w inp out mw q i n fs st))) = disk st \<and>
         total_original_size (snd (snd (process_files w inp out mw q i n fs st))) =
           total_original_size st \<and>
         total_compressed_size (snd (snd (process_files w inp out mw q i n fs st))) =
           total_compressed_size st \<and>
         successful_original_sum (fst (snd (process_files w inp out mw q i n fs st))) = 0 \<and>
         successful_compressed_sum (fst (snd (process_files w inp out mw q i n fs st))) = 0"
  using assms(2)
proof (induction fs arbitrary: i st)
  case Nil
  then show ?case by simp
next
  case (Cons f fs)
  from Cons.prems [of f] obtain e where o: "Image_open w (disk st) (path_join inp f) = Inl e"
    by (cases "Image_open w (disk st) (path_join inp f)") auto
  let ?st1 = "st\<lparr>stdout := stdout st @ [FileError i n f e]\<rparr>"
  have e: "error_isolator w inp out mw q i n f st = (None, Inl e, ?st1)"
    by (simp add: error_isolator_def decode_failure [OF o] print_def assms(1))
  obtain x rs st2 where p: "process_files w inp out mw q (Suc i) n fs ?st1 = (x, rs, st2)"
    by (cases "process_files w inp out mw q (Suc i) n fs ?st1")
  have "\<And>g. g \<in> set fs \<Longrightarrow> isl (Image_open w (disk ?st1) (path_join inp g))"
    using Cons.prems by simp
  from Cons.IH [OF this, of "Suc i"] show ?case
    unfolding p by (simp add: e p)
qed

lemma undecodable_batch_raises:
  assumes pr: "\<And>printed l. print_error w printed l = None"
    and mk: "makedirs w fs (case output_folder_arg of None \<Rightarrow> input_folder @ ''-compressed'' | Some p \<Rightarrow> p) = Inr fs1"
    and ls: "os_listdir w fs1 input_folder = Inr listing"
    and ne: "select_images listing \<noteq> []"
    and bad: "\<And>f. f \<in> set (select_images listing) \<Longrightarrow> isl (Image_open w fs1 (path_join input_folder f))"
  shows "fst (compress_images w fs input_folder output_folder_arg max_width quality) =
           Raised (Exn ''ZeroDivisionError'' ''division by zero'')"
proof -
  let ?out = "case output_folder_arg of None \<Rightarrow> input_folder @ ''-compressed'' | Some p \<Rightarrow> p"
  let ?n = "length (select_images listing)"
  let ?st1 = "(initial_state fs1)\<lparr>stdout := stdout (initial_state fs1) @
                [Compressing ?n input_folder, OutputFolder ?out, Settings max_width quality]\<rparr>"
  let ?p = "process_files w input_folder ?out max_width quality 1 ?n (select_images listing) ?st1"
  obtain x rs st2 where p: "?p = (x, rs, st2)" by (cases ?p)
  have "\<And>f. f \<in> set (select_images listing) \<Longrightarrow> isl (Image_open w (disk ?st1) (path_join input_folder f))"
    using bad by (simp add: initial_state_def)
  from process_files_undecodable [where out = ?out and mw = max_width and q = quality
      and i = 1 and n = ?n and fs = "select_images listing" and st = ?st1
      and inp = input_folder, OF pr this]
  have x: "x = None" and "total_original_size st2 = 0" "total_compressed_size st2 = 0"
    unfolding p by (simp_all add: initial_state_def)
  then have "fst (summary w ?out st2) = Some (Exn ''ZeroDivisionError'' ''division by zero'')"
    by (simp add: summary_zero_totals [OF pr])
  with mk ls ne p x show ?thesis
    by (cases "summary w ?out st2")
       (simp add: compress_images_def Let_def header_printed [OF pr] outcome_of_def
          del: statements.simps)
qed

text \<open>
  C4 at a failing input: a folder whose only image file cannot be decoded. Both totals
  are zero after the loop, the first three totals are printed, and line 95 divides by
  zero outside any handler: the exception leaves \<open>compress_images\<close> and no overall
  reduction is reported.
\<close>

theorem undecodable_batch_run:
  "fst undecodable_run = Raised (Exn ''ZeroDivisionError'' ''division by zero'') \<and>
   fst (snd undecodable_run) =
     [(''broken.jpg'', Inl (Exn ''UnidentifiedImageError'' ''in/broken.jpg''))] \<and>
   stdout (snd (snd undecodable_run)) =
     [Compressing 1 ''in'', OutputFolder ''in-compressed'', Settings 2000 85,
      FileError 1 1 ''broken.jpg'' (Exn ''UnidentifiedImageError'' ''in/broken.jpg''),
      Rule, CompressionComplete, Rule,
      TotalOriginal (Finite 0), TotalCompressed (Finite 0), TotalSaved (Finite 0)]"
proof -
  let ?w = "sample_world [(''in'', [''broken.jpg''])] []"
  let ?d = "sample_disk [(''in/broken.jpg'', [1, 2, 3])]"
  let ?fs1 = "?d\<lparr>dirs := dirs ?d \<union> set (path_ancestors ''in-compressed'')\<rparr>"
  have pr: "print_error ?w printed l = None" for printed l
    by (simp add: sample_world_def)
  have 1: "makedirs ?w ?d ''in-compressed'' = Inr ?fs1"
    by (simp add: makedirs_def sample_world_def sample_disk_def)
  have 2: "os_listdir ?w ?fs1 ''in'' = Inr [''broken.jpg'']"
    by (simp add: sample_world_def)
  have 3: "select_images [''broken.jpg''] = [''broken.jpg'']" by code_simp
  have 4: "path_join ''in'' ''broken.jpg'' = ''in/broken.jpg''" by code_simp
  have 5: "Image_open ?w fs ''in/broken.jpg'' = Inl (Exn ''UnidentifiedImageError'' ''in/broken.jpg'')" for fs
    by (simp add: sample_world_def)
  have 6: "try_file ?w ''in'' out mw q i n ''broken.jpg'' st =
             (Inl (Exn ''UnidentifiedImageError'' ''in/broken.jpg''), st)"
    for out mw q i n st
    by (rule decode_failure) (simp only: 4 5)
  show ?thesis
    unfolding undecodable_run_def compress_images_def
    by (simp add: 1 2 3 6 Let_def header_printed [OF pr] error_isolator_def print_def pr
          summary_zero_totals [OF pr] initial_state_def outcome_of_def del: statements.simps)
qed

section \<open>A missing input folder\<close>

text \<open>
  C2, as the specification words it, covers a folder that is not listable. An
  \<open>os.listdir\<close> that raises \<open>PermissionError\<close> is not caught by line 29: the exception
  leaves \<open>compress_images\<close> and nothing is printed.
\<close>

theorem unlistable_input_folder_counterexample:
  "fst unlistable_run = Raised (Exn ''PermissionError'' ''private'') \<and>
   stdout (snd (snd unlistable_run)) = []"
  by code_simp

text \<open>
  C2, amended: when \<open>os.listdir\<close> raises \<open>FileNotFoundError\<close>, the call prints the one
  error line, processes no file, leaves every file as it was and returns; line 21 has
  created the output folder before. Only that \<open>print\<close> can still raise, and what it
  raises leaves the call.
\<close>

theorem missing_input_folder:
  assumes "makedirs w fs (case output_folder_arg of None \<Rightarrow> input_folder @ ''-compressed'' | Some p \<Rightarrow> p) = Inr fs1"
    and "os_listdir w fs1 input_folder = Inl e"
    and "exc_class e = ''FileNotFoundError''"
  shows "compress_images w fs input_folder output_folder_arg max_width quality =
           (case print_error w [] (FolderNotFound input_folder) of
              None \<Rightarrow>
                (Returned, [], \<lparr>disk = fs1, total_original_size = 0, total_compressed_size = 0,
                                stdout = [FolderNotFound input_folder]\<rparr>)
            | Some raised \<Rightarrow>
                (Raised raised, [], \<lparr>disk = fs1, total_original_size = 0,
                                      total_compressed_size = 0, stdout = []\<rparr>)) \<and>
         files fs1 = files fs \<and>
         dirs fs1 =
           dirs fs \<union> set (path_ancestors (case output_folder_arg of
                                               None \<Rightarrow> input_folder @ ''-compressed''
                                             | Some p \<Rightarrow> p))"
  using assms
  by (auto simp: compress_images_def Let_def print_def initial_state_def makedirs_def
        outcome_of_def split: option.splits)

theorem missing_input_folder_witness:
  "compress_images (sample_world [] []) (sample_disk [(''other/a.jpg'', [1, 2])]) ''photos'' None 2000 85 =
           (Returned, [], \<lparr>disk = \<lparr>files = map_of [(''other/a.jpg'', [1, 2])], dirs = {''photos-compressed''}\<rparr>, total_original_size = 0, total_compressed_size = 0,
                           stdout = [FolderNotFound ''photos'']\<rparr>)"
proof -
  let ?fs = "sample_disk [(''other/a.jpg'', [1, 2])]"
  let ?fs1 = "\<lparr>files = map_of [(''other/a.jpg'', [1, 2])], dirs = {''photos-compressed''}\<rparr>"
  have a: "set (path_ancestors ''photos-compressed'') = {''photos-compressed''}" by code_simp
  have 1: "makedirs (sample_world [] []) ?fs (case None of None \<Rightarrow> ''photos'' @ ''-compressed'' | Some p \<Rightarrow> p) = Inr ?fs1"
    using a by (simp add: makedirs_def sample_world_def sample_disk_def)
  have 2: "os_listdir (sample_world [] []) ?fs1 ''photos'' = Inl (Exn ''FileNotFoundError'' ''photos'')"
    by (simp add: sample_world_def)
  have 3: "print_error (sample_world [] []) [] (FolderNotFound ''photos'') = None"
    by (simp add: sample_world_def)
  from missing_input_folder [OF 1 2, of 2000 85] show ?thesis by (simp add: 3)
qed

section \<open>The handler and the loop\<close>

lemma compress_images_loop:
  assumes mk: "makedirs w fs (case output_folder_arg of None \<Rightarrow> input_folder @ ''-compressed'' | Some p \<Rightarrow> p) = Inr fs1"
    and ls: "os_listdir w fs1 input_folder = Inr listing"
    and ne: "select_images listing \<noteq> []"
    and hd: "statements
               [print w (Compressing (length (select_images listing)) input_folder),
                print w (OutputFolder (case output_folder_arg of None \<Rightarrow> input_folder @ ''-compressed'' | Some p \<Rightarrow> p)),
                print w (Settings max_width quality)] (initial_state fs1) = (None, st1)"
    and p: "process_files w input_folder
              (case output_folder_arg of None \<Rightarrow> input_folder @ ''-compressed'' | Some p \<Rightarrow> p)
              max_width quality 1 (length (select_images listing)) (select_images listing) st1 =
              (None, rs, st2)"
  shows "\<exists>oc st3. compress_images w fs input_folder output_folder_arg max_width quality = (oc, rs, st3) \<and>
           disk st3 = disk st2 \<and> total_original_size st3 = total_original_size st2 \<and>
           total_compressed_size st3 = total_compressed_size st2"
proof -
  let ?out = "case output_folder_arg of None \<Rightarrow> input_folder @ ''-compressed'' | Some p \<Rightarrow> p"
  obtain eo st3 where su: "summary w ?out st2 = (eo, st3)" by (cases "summary w ?out st2")
  with summary_keeps [of w ?out st2]
  have k: "disk st3 = disk st2 \<and> total_original_size st3 = total_original_size st2 \<and>
           total_compressed_size st3 = total_compressed_size st2" by simp
  from mk ls ne hd p su k show ?thesis
    by (simp add: compress_images_def Let_def del: statements.simps)
qed

lemma default_output_folder:
  "compress_images w fs inp None mw q =
   compress_images w fs inp (Some (inp @ ''-compressed'')) mw q"
  by (simp add: compress_images_def)

text \<open>
  C9, as the specification words it: no failure of a file propagates, and the batch
  attempts every enumerated file. The handler's own \<open>print\<close> of line 86 is outside the
  \<open>try\<close>. On a standard output that encodes ASCII only, the first file, whose name has
  the byte \<open>0xE9\<close>, does not decode; the handler catches that, and its error line raises
  \<open>UnicodeEncodeError\<close>, which leaves \<open>compress_images\<close>: the second enumerated file
  is never attempted.
\<close>

theorem unprintable_error_line_counterexample:
  "select_images [latin1_name, ''ok.jpg''] = [latin1_name, ''ok.jpg''] \<and>
   fst unprintable_run =
     Raised (Exn ''UnicodeEncodeError'' (latin1_name @ ''in/'' @ latin1_name)) \<and>
   fst (snd unprintable_run) =
     [(latin1_name, Inl (Exn ''UnidentifiedImageError'' (''in/'' @ latin1_name)))] \<and>
   stdout (snd (snd unprintable_run)) =
     [Compressing 2 ''in'', OutputFolder ''in-compressed'', Settings 2000 85]"
proof -
  define w where "w = (sample_world [(''in'', [latin1_name, ''ok.jpg''])]
           [(''in/ok.jpg'',
             \<lparr>mode = ''RGB'', width = 500, height = 500, pixels = FromFile ''in/ok.jpg''\<rparr>)])
          \<lparr>print_error := ascii_stdout\<rparr>"
  define d where "d = sample_disk [(''in/'' @ latin1_name, [1, 2, 3]), (''in/ok.jpg'', replicate 50 9)]"
  define e where "e = Exn ''UnidentifiedImageError'' (''in/'' @ latin1_name)"
  define u where "u = Exn ''UnicodeEncodeError'' (latin1_name @ ''in/'' @ latin1_name)"
  let ?fs1 = "d\<lparr>dirs := dirs d \<union> set (path_ancestors ''in-compressed'')\<rparr>"
  have 0: "files d ''in-compressed'' = None"
    by (simp add: d_def sample_disk_def latin1_name_def)
  have 1: "makedirs w d ''in-compressed'' = Inr ?fs1"
    using 0 by (simp add: makedirs_def w_def sample_world_def)
  have 2: "os_listdir w fs ''in'' = Inr [latin1_name, ''ok.jpg'']" for fs
    by (simp add: w_def sample_world_def)
  have 3: "select_images [latin1_name, ''ok.jpg''] = [latin1_name, ''ok.jpg'']"
    unfolding latin1_name_def by code_simp
  have 4: "path_join ''in'' latin1_name = ''in/'' @ latin1_name"
    unfolding latin1_name_def by code_simp
  have 5: "Image_open w fs (''in/'' @ latin1_name) = Inl e" for fs
    by (simp add: w_def e_def sample_world_def latin1_name_def)
  have 6: "try_file w ''in'' out mw q i n latin1_name st = (Inl e, st)" for out mw q i n st
    by (rule decode_failure) (simp only: 4 5)
  have 7: "print_error w printed (Compressing k ''in'') = None"
    "print_error w printed (OutputFolder ''in-compressed'') = None"
    "print_error w printed (Settings 2000 85) = None" for printed k
    by (simp_all add: w_def ascii_stdout_def encode_error_def ascii_text_def)
  have 8: "print_error w printed (FileError i n latin1_name e) = Some u" for printed i n
    by (simp add: w_def e_def u_def ascii_stdout_def encode_error_def ascii_text_def
          latin1_name_def)
  have "compress_images w d ''in'' None 2000 85 =
          (Raised u, [(latin1_name, Inl e)],
           (initial_state ?fs1)\<lparr>stdout := [Compressing 2 ''in'', OutputFolder ''in-compressed'',
                                            Settings 2000 85]\<rparr>)"
    unfolding compress_images_def
    by (simp add: 1 2 3 6 7 8 Let_def error_isolator_def print_def initial_state_def)
  then show ?thesis
    unfolding unprintable_run_def w_def [symmetric] d_def [symmetric]
    by (simp add: 3 e_def u_def)
qed

text \<open>
  C9, amended: whatever a file's decode, normalise, resize or encode raises ends the
  \<open>try\<close> of that file with the exception, and the handler of line 85 records it as the
  file's Error result. Provided the standard output takes the error line of line 86, the
  handler prints that line and raises nothing: the loop gives every file of its list one
  result, in order, each the outcome of its own \<open>try\<close> in the state that the files before
  it left, and the error lines printed are the failed files with their exceptions. The
  list of the loop is the enumeration.
\<close>

theorem failures_are_isolated:
  assumes printable: "\<And>printed j m g e. print_error w printed (FileError j m g e) = None"
  shows "error_isolator w input_folder output_folder max_width quality i n filename st =
           (case try_file w input_folder output_folder max_width quality i n filename st of
              (Inl e, st1) \<Rightarrow>
                (None, Inl e, st1\<lparr>stdout := stdout st1 @ [FileError i n filename e]\<rparr>)
            | (Inr sizes, st1) \<Rightarrow> (None, Inr sizes, st1)) \<and>
         (\<forall>e. Image_open w (disk st) (path_join input_folder filename) = Inl e \<longrightarrow>
            try_file w input_folder output_folder max_width quality i n filename st =
              (Inl e, st)) \<and>
         (\<forall>img sz e.
            Image_open w (disk st) (path_join input_folder filename) = Inr img \<and>
            getsize (disk st) (path_join input_folder filename) = Inr sz \<and>
            color_normalizer w img = Inl e \<longrightarrow>
            try_file w input_folder output_folder max_width quality i n filename st =
              (Inl e, st\<lparr>total_original_size := total_original_size st + sz\<rparr>)) \<and>
         (\<forall>img sz rgb e.
            Image_open w (disk st) (path_join input_folder filename) = Inr img \<and>
            getsize (disk st) (path_join input_folder filename) = Inr sz \<and>
            color_normalizer w img = Inr rgb \<and> resizer w max_width rgb = Inl e \<longrightarrow>
            try_file w input_folder output_folder max_width quality i n filename st =
              (Inl e, st\<lparr>total_original_size := total_original_size st + sz\<rparr>)) \<and>
         (\<forall>img sz rgb small e left.
            Image_open w (disk st) (path_join input_folder filename) = Inr img \<and>
            getsize (disk st) (path_join input_folder filename) = Inr sz \<and>
            color_normalizer w img = Inr rgb \<and> resizer w max_width rgb = Inr small \<and>
            Image_save w (disk st) small (path_join output_folder (output_filename filename))
              ''JPEG'' quality True = SaveFailed e left \<longrightarrow>
            try_file w input_folder output_folder max_width quality i n filename st =
              (Inl e, st\<lparr>total_original_size := total_original_size st + sz,
                        disk := write_file (path_join output_folder (output_filename filename))
                                  left (disk st)\<rparr>)) \<and>
         fst (process_files w input_folder output_folder max_width quality i n fs st) = None \<and>
         map fst (fst (snd (process_files w input_folder output_folder max_width quality i n fs st))) = fs \<and>
         (\<forall>k<length fs.
            snd (fst (snd (process_files w input_folder output_folder max_width quality i n fs st)) ! k) =
              fst (try_file w input_folder output_folder max_width quality (i + k) n (fs ! k)
                     (snd (snd (process_files w input_folder output_folder max_width quality i n
                                  (take k fs) st))))) \<and>
         error_lines (stdout (snd (snd (process_files w input_folder output_folder max_width quality i n fs st)))) =
           error_lines (stdout st) @
           failures (fst (snd (process_files w input_folder output_folder max_width quality i n fs st))) \<and>
         (\<forall>fs0 fs1 listing st1.
            makedirs w fs0 output_folder = Inr fs1 \<and>
            os_listdir w fs1 input_folder = Inr listing \<and> select_images listing \<noteq> [] \<and>
            statements
              [print w (Compressing (length (select_images listing)) input_folder),
               print w (OutputFolder output_folder),
               print w (Settings max_width quality)] (initial_state fs1) = (None, st1) \<longrightarrow>
            fst (snd (compress_images w fs0 input_folder (Some output_folder) max_width quality)) =
              fst (snd (process_files w input_folder output_folder max_width quality 1
                          (length (select_images listing)) (select_images listing) st1)) \<and>
            map fst (fst (snd (compress_images w fs0 input_folder (Some output_folder) max_width quality))) =
              select_images listing)"
proof -
  note loop = loop_attempts_every_file [where w = w, OF printable]
  have bridge: "fst (snd (compress_images w fs0 input_folder (Some output_folder) max_width quality)) =
              fst (snd (process_files w input_folder output_folder max_width quality 1
                          (length (select_images listing)) (select_images listing) st1)) \<and>
            map fst (fst (snd (compress_images w fs0 input_folder (Some output_folder) max_width quality))) =
              select_images listing"
    if mk: "makedirs w fs0 output_folder = Inr fs1"
      and ls: "os_listdir w fs1 input_folder = Inr listing"
      and ne: "select_images listing \<noteq> []"
      and hd: "statements
              [print w (Compressing (length (select_images listing)) input_folder),
               print w (OutputFolder output_folder),
               print w (Settings max_width quality)] (initial_state fs1) = (None, st1)"
    for fs0 fs1 listing st1
  proof -
    let ?p = "process_files w input_folder output_folder max_width quality 1
                (length (select_images listing)) (select_images listing) st1"
    obtain rs st2 where p: "?p = (None, rs, st2)"
      using loop [of input_folder output_folder max_width quality 1
          "length (select_images listing)" "select_images listing" st1]
      by (cases ?p) auto
    have m: "map fst rs = select_images listing"
      using loop [of input_folder output_folder max_width quality 1
          "length (select_images listing)" "select_images listing" st1] p by simp
    have mk': "makedirs w fs0 (case Some output_folder of None \<Rightarrow> input_folder @ ''-compressed'' | Some p \<Rightarrow> p) = Inr fs1"
      using mk by simp
    have hd': "statements
               [print w (Compressing (length (select_images listing)) input_folder),
                print w (OutputFolder (case Some output_folder of None \<Rightarrow> input_folder @ ''-compressed'' | Some p \<Rightarrow> p)),
                print w (Settings max_width quality)] (initial_state fs1) = (None, st1)"
      using hd by simp
    have p': "process_files w input_folder
              (case Some output_folder of None \<Rightarrow> input_folder @ ''-compressed'' | Some p \<Rightarrow> p)
              max_width quality 1 (length (select_images listing)) (select_images listing) st1 =
              (None, rs, st2)"
      using p by simp
    from compress_images_loop [OF mk' ls ne hd' p'] p m show ?thesis by auto
  qed
  show ?thesis
    apply (intro conjI allI impI)
             apply (rule handler [OF printable])
            apply (erule decode_failure)
           apply (elim conjE, erule (2) normalize_failure)
          apply (elim conjE, erule (3) resize_failure)
         apply (elim conjE, erule (4) encode_failure)
        apply (simp add: loop)
       apply (simp add: loop)
      apply (erule loop_result_at [OF printable])
     apply (simp add: loop)
     apply (elim conjE, rule bridge [THEN conjunct1], assumption+)
    apply (elim conjE, rule bridge [THEN conjunct2], assumption+)
    done
qed

theorem failures_are_isolated_witness:
  "map fst (fst (snd sample_run)) = [''a.png'', ''b.jpg'', ''c.JPG''] \<and>
   snd (fst (snd sample_run) ! 2) = Inl (Exn ''UnidentifiedImageError'' ''in/c.JPG'') \<and>
   error_isolator sample_photos_world ''in'' ''in-compressed'' 2000 85 3 3 ''c.JPG''
       (initial_state sample_photos_disk) =
     (None, Inl (Exn ''UnidentifiedImageError'' ''in/c.JPG''),
      (initial_state sample_photos_disk)
        \<lparr>stdout := [FileError 3 3 ''c.JPG'' (Exn ''UnidentifiedImageError'' ''in/c.JPG'')]\<rparr>)"
proof -
  define w where "w = sample_photos_world"
  define names where "names = [''a.png'', ''b.jpg'', ''c.JPG'']"
  define E where "E = Exn ''UnidentifiedImageError'' ''in/c.JPG''"
  let ?fs1 = "sample_photos_disk
                \<lparr>dirs := dirs sample_photos_disk \<union> set (path_ancestors ''in-compressed'')\<rparr>"
  let ?listing = "[''a.png'', ''b.jpg'', ''notes.txt'', ''c.JPG'', ''d.Jpg'']"
  define st1 where "st1 = (initial_state ?fs1)
     \<lparr>stdout := [Compressing 3 ''in'', OutputFolder ''in-compressed'', Settings 2000 85]\<rparr>"
  have pr: "print_error w printed l = None" for printed l
    by (simp add: w_def sample_photos_world_def sample_world_def)
  note T = failures_are_isolated [where w = w and input_folder = "''in''"
      and output_folder = "''in-compressed''" and max_width = 2000 and quality = 85, OF pr]
  have 1: "makedirs w sample_photos_disk ''in-compressed'' = Inr ?fs1"
    by (simp add: makedirs_def w_def sample_photos_world_def sample_world_def
          sample_photos_disk_def sample_disk_def)
  have 2: "os_listdir w ?fs1 ''in'' = Inr ?listing"
    by (simp add: w_def sample_photos_world_def sample_world_def)
  have 3: "select_images ?listing = names"
    unfolding names_def by code_simp
  have ne: "select_images ?listing \<noteq> []" by (simp add: 3 names_def)
  have len: "length names = 3" by (simp add: names_def)
  have 4: "statements
              [print w (Compressing (length (select_images ?listing)) ''in''),
               print w (OutputFolder ''in-compressed''),
               print w (Settings 2000 85)] (initial_state ?fs1) = (None, st1)"
    by (simp add: 3 len header_printed [OF pr] st1_def initial_state_def del: statements.simps)
  have 5: "path_join ''in'' ''c.JPG'' = ''in/c.JPG''" by code_simp
  have 6: "Image_open w fs (path_join ''in'' ''c.JPG'') = Inl E" for fs
    by (simp add: 5 w_def E_def sample_photos_world_def sample_world_def)
  have t: "try_file w ''in'' ''in-compressed'' 2000 85 i n ''c.JPG'' st = (Inl E, st)" for i n st
    using T [of i n "''c.JPG''" st "[]"] 6 [of "disk st"] by blast
  have e: "error_isolator w ''in'' ''in-compressed'' 2000 85 i n ''c.JPG'' st =
             (None, Inl E, st\<lparr>stdout := stdout st @ [FileError i n ''c.JPG'' E]\<rparr>)" for i n st
    using T [of i n "''c.JPG''" st "[]"] by (simp add: t)
  let ?run = "compress_images w sample_photos_disk ''in'' (Some ''in-compressed'') 2000 85"
  let ?loop = "process_files w ''in'' ''in-compressed'' 2000 85 1 3 names st1"
  from T [of 1 3 "''c.JPG''" st1 names]
  have bridge: "\<forall>fs0 fs1 listing st1.
            makedirs w fs0 ''in-compressed'' = Inr fs1 \<and>
            os_listdir w fs1 ''in'' = Inr listing \<and> select_images listing \<noteq> [] \<and>
            statements
              [print w (Compressing (length (select_images listing)) ''in''),
               print w (OutputFolder ''in-compressed''),
               print w (Settings 2000 85)] (initial_state fs1) = (None, st1) \<longrightarrow>
            fst (snd (compress_images w fs0 ''in'' (Some ''in-compressed'') 2000 85)) =
              fst (snd (process_files w ''in'' ''in-compressed'' 2000 85 1
                          (length (select_images listing)) (select_images listing) st1)) \<and>
            map fst (fst (snd (compress_images w fs0 ''in'' (Some ''in-compressed'') 2000 85))) =
              select_images listing"
    and at: "\<forall>k<length names.
            snd (fst (snd ?loop) ! k) =
              fst (try_file w ''in'' ''in-compressed'' 2000 85 (1 + k) 3 (names ! k)
                     (snd (snd (process_files w ''in'' ''in-compressed'' 2000 85 1 3
                                  (take k names) st1))))"
    by blast+
  note b = bridge [THEN spec, THEN spec, THEN spec, THEN spec, THEN mp,
      OF conjI [OF 1 conjI [OF 2 conjI [OF ne 4]]]]
  have r: "fst (snd ?run) = fst (snd ?loop)"
    using b [THEN conjunct1] by (simp only: 3 len)
  have m: "map fst (fst (snd ?run)) = names"
    using b [THEN conjunct2] by (simp only: 3)
  have n2: "names ! 2 = ''c.JPG''" by (simp add: names_def)
  from at [THEN spec, of 2] have "snd (fst (snd ?loop) ! 2) = Inl E"
    by (simp add: len n2 t)
  with r have a: "snd (fst (snd ?run) ! 2) = Inl E" by simp
  have s: "sample_run = ?run"
    unfolding sample_run_def w_def by (simp add: default_output_folder)
  from m a e [of 3 3 "initial_state sample_photos_disk"] show ?thesis
    unfolding s by (simp add: names_def E_def w_def initial_state_def)
qed

section \<open>Batches of one file\<close>

lemma single_file_batch:
  assumes pr: "\<And>printed l. print_error w printed l = None"
    and mk: "makedirs w fs out = Inr fs1"
    and out: "out = (case output_folder_arg of None \<Rightarrow> input_folder @ ''-compressed'' | Some p \<Rightarrow> p)"
    and ls: "os_listdir w fs1 input_folder = Inr listing"
    and sel: "select_images listing = [f]"
    and run: "error_isolator w input_folder out max_width quality 1 1 f
                ((initial_state fs1)\<lparr>stdout := [Compressing 1 input_folder, OutputFolder out,
                                                 Settings max_width quality]\<rparr>) = (None, r, st2)"
  shows "\<exists>oc st3. compress_images w fs input_folder output_folder_arg max_width quality =
                      (oc, [(f, r)], st3) \<and>
           disk st3 = disk st2 \<and> total_original_size st3 = total_original_size st2 \<and>
           total_compressed_size st3 = total_compressed_size st2"
proof -
  let ?st1 = "(initial_state fs1)\<lparr>stdout := [Compressing 1 input_folder, OutputFolder out,
                                                 Settings max_width quality]\<rparr>"
  have ne: "select_images listing \<noteq> []" using sel by simp
  have hd: "statements
               [print w (Compressing (length (select_images listing)) input_folder),
                print w (OutputFolder out),
                print w (Settings max_width quality)] (initial_state fs1) = (None, ?st1)"
    by (simp add: sel header_printed [OF pr] initial_state_def del: statements.simps)
  have p: "process_files w input_folder out max_width quality 1 (length (select_images listing))
             (select_images listing) ?st1 = (None, [(f, r)], st2)"
    using run by (simp add: sel)
  from compress_images_loop [OF mk [unfolded out] ls ne hd [unfolded out] p [unfolded out]]
  show ?thesis .
qed

section \<open>The totals and the successful files\<close>

text \<open>
  C1 at a failing input: a 16-bit greyscale PNG of 120 bytes decodes, line 53 adds its
  size to the total, and the JPEG encoder then refuses its mode. The file is an Error
  result, no file succeeded, and the original-size total is 120 where the sum over the
  successful files is 0.
\<close>

theorem failed_file_counted_in_total:
  "fst (snd sixteen_bit_run) = [(''scan.png'', Inl (Exn ''OSError'' ''cannot write mode I;16 as JPEG''))] \<and>
   successful_original_sum (fst (snd sixteen_bit_run)) = 0 \<and>
   total_original_size (snd (snd sixteen_bit_run)) = 120"
proof -
  let ?img = "\<lparr>mode = ''I;16'', width = 800, height = 600, pixels = FromFile ''in/scan.png''\<rparr>"
  let ?w = "sample_world [(''in'', [''scan.png''])] [(''in/scan.png'', ?img)]"
  let ?d = "sample_disk [(''in/scan.png'', replicate 120 0)]"
  let ?fs1 = "?d\<lparr>dirs := dirs ?d \<union> set (path_ancestors ''in-compressed'')\<rparr>"
  let ?st1 = "(initial_state ?fs1)\<lparr>stdout := [Compressing 1 ''in'', OutputFolder ''in-compressed'',
                                                 Settings 2000 85]\<rparr>"
  let ?e = "error_isolator ?w ''in'' ''in-compressed'' 2000 85 1 1 ''scan.png'' ?st1"
  have pr: "print_error ?w printed l = None" for printed l
    by (simp add: sample_world_def)
  have 1: "makedirs ?w ?d ''in-compressed'' = Inr ?fs1"
    by (simp add: makedirs_def sample_world_def sample_disk_def)
  have 2: "os_listdir ?w ?fs1 ''in'' = Inr [''scan.png'']"
    by (simp add: sample_world_def)
  have 3: "select_images [''scan.png''] = [''scan.png'']" by code_simp
  have 4: "path_join ''in'' ''scan.png'' = ''in/scan.png''" by code_simp
  have 5: "output_filename ''scan.png'' = ''scan.jpg''" by code_simp
  have 6: "path_join ''in-compressed'' ''scan.jpg'' = ''in-compressed/scan.jpg''" by code_simp
  have "fst ?e = None \<and>
        fst (snd ?e) = Inl (Exn ''OSError'' ''cannot write mode I;16 as JPEG'') \<and>
        total_original_size (snd (snd ?e)) = 120"
    by (simp add: error_isolator_def try_file_def pipeline_def color_normalizer_def resizer_def
          encoder_def getsize_def write_file_def
          sample_world_def sample_disk_def Let_def print_def initial_state_def 4 5 6)
  then obtain st2 where e: "?e = (None, Inl (Exn ''OSError'' ''cannot write mode I;16 as JPEG''), st2)"
    and t: "total_original_size st2 = 120"
    by (cases ?e) auto
  have o: "''in-compressed'' = (case None of None \<Rightarrow> ''in'' @ ''-compressed'' | Some p \<Rightarrow> p)"
    by simp
  from single_file_batch [OF pr 1 o 2 3 e] t show ?thesis
    by (auto simp: sixteen_bit_run_def)
qed

section \<open>A computed height of zero\<close>

text \<open>
  C10: an image wider than a positive maximal width whose height times that width is
  below its own width gets the new height 0; the Resizer passes it to \<open>resize\<close>
  unguarded, and as the library rejects a zero height the file ends as an Error result.
  The width is below \<open>2^31\<close>, as every size that Pillow holds is.
\<close>

theorem zero_height_resize:
  assumes W: "0 < max_width" and wide: "max_width < width img" and h0: "0 \<le> height img"
    and flat: "height img * max_width < width img" and w31: "width img < 2 ^ 31"
    and opened: "Image_open w (disk st) (path_join input_folder filename) = Inr img"
    and rejects: "\<And>im. isl (Image_resize w im (max_width, 0) LANCZOS)"
  shows "new_height max_width (width img) (height img) = Inr 0 \<and>
         resizer w max_width img =
           (case Image_resize w img (max_width, 0) LANCZOS of
              Inl e \<Rightarrow> Inl e
            | Inr px \<Rightarrow> Inr \<lparr>mode = mode img, width = max_width, height = 0, pixels = px\<rparr>) \<and>
         isl (fst (snd (error_isolator w input_folder output_folder max_width quality i n filename st)))"
proof -
  note z = new_height_zero [OF W wide h0 flat w31]
  have r: "resizer w max_width img =
           (case Image_resize w img (max_width, 0) LANCZOS of
              Inl e \<Rightarrow> Inl e
            | Inr px \<Rightarrow> Inr \<lparr>mode = mode img, width = max_width, height = 0, pixels = px\<rparr>)"
    using wide by (simp add: resizer_def z)
  have n: "isl (resizer w max_width rgb)" if "color_normalizer w img = Inr rgb" for rgb
  proof -
    from color_normalizer_size [OF that] have "width rgb = width img" "height rgb = height img"
      by simp_all
    with wide z rejects [of rgb] show ?thesis
      by (cases "Image_resize w rgb (max_width, 0) LANCZOS") (simp_all add: resizer_def)
  qed
  have p: "isl (fst (pipeline w output_folder max_width quality i n filename sz img s))" for sz s
  proof (cases "color_normalizer w img")
    case (Inl e)
    then show ?thesis by (simp add: pipeline_def)
  next
    case (Inr rgb)
    with n [OF Inr] show ?thesis
      by (cases "resizer w max_width rgb") (simp_all add: pipeline_def)
  qed
  have "isl (fst (try_file w input_folder output_folder max_width quality i n filename st))"
    using opened p by (simp add: try_file_def Let_def split: sum.splits)
  then have "isl (fst (snd (error_isolator w input_folder output_folder max_width quality i n filename st)))"
    by (cases "try_file w input_folder output_folder max_width quality i n filename st")
       (auto simp: error_isolator_def isl_def split: prod.splits)
  with z r show ?thesis by simp
qed

theorem zero_height_resize_witness:
  "new_height 2000 3000 1 = Inr 0 \<and>
   resizer sample_wide_world 2000
     \<lparr>mode = ''RGB'', width = 3000, height = 1, pixels = FromFile ''in/wide.png''\<rparr> =
     Inl (Exn ''ValueError'' ''height and width must be > 0'') \<and>
   isl (fst (snd (error_isolator sample_wide_world ''in'' ''out'' 2000 85 1 1 ''wide.png''
               (initial_state (sample_disk [(''in/wide.png'', replicate 40 0)])))))"
proof -
  let ?img = "\<lparr>mode = ''RGB'', width = 3000, height = 1, pixels = FromFile ''in/wide.png''\<rparr>"
  let ?st = "initial_state (sample_disk [(''in/wide.png'', replicate 40 0)])"
  have p: "path_join ''in'' ''wide.png'' = ''in/wide.png''" by code_simp
  have 1: "(0::int) < 2000" "2000 < width ?img" "0 \<le> height ?img"
    "height ?img * 2000 < width ?img" "width ?img < 2 ^ 31" by simp_all
  have 2: "Image_open sample_wide_world (disk ?st) (path_join ''in'' ''wide.png'') = Inr ?img"
    by (simp add: p sample_wide_world_def sample_world_def)
  have 3: "isl (Image_resize sample_wide_world im (2000, 0) LANCZOS)" for im
    by (simp add: sample_wide_world_def sample_world_def)
  from zero_height_resize [OF 1 2 3, of "''out''" 85 1 1] show ?thesis
    by (simp add: sample_wide_world_def sample_world_def)
qed

section \<open>A file of zero bytes\<close>

lemma size_accountant_zero_original:
  "files (disk st) p = Some b \<Longrightarrow>
   size_accountant w i n f 0 p st =
     (Inl (Exn ''ZeroDivisionError'' ''division by zero''),
      st\<lparr>total_compressed_size := total_compressed_size st + int (length b)\<rparr>)"
  by (simp add: size_accountant_def getsize_def Let_def reduction_percent_zero)

lemma size_accountant_zero_fails:
  "isl (fst (size_accountant w i n f 0 p st)) \<and>
   stdout (snd (size_accountant w i n f 0 p st)) = stdout st"
  by (auto simp: size_accountant_def Let_def reduction_percent_zero split: sum.splits)

lemma pipeline_zero_fails:
  "isl (fst (pipeline w out mw q i n f 0 img st)) \<and>
   stdout (snd (pipeline w out mw q i n f 0 img st)) = stdout st"
proof (cases "color_normalizer w img")
  case (Inl e)
  then show ?thesis by (simp add: pipeline_def)
next
  case rgb: (Inr rgb)
  show ?thesis
  proof (cases "resizer w mw rgb")
    case (Inl e)
    with rgb show ?thesis by (simp add: pipeline_def)
  next
    case small: (Inr small)
    obtain r st1 where e: "encoder w out q f small st = (r, st1)"
      by (cases "encoder w out q f small st")
    with encoder_stdout [of w out q f small st] have s: "stdout st1 = stdout st" by simp
    show ?thesis
      using size_accountant_zero_fails [of w i n f _ st1]
      by (cases r) (simp_all add: pipeline_def rgb small e s)
  qed
qed

lemma size_accountant_value:
  assumes "\<And>printed l. print_error w printed l = None"
    and "files (disk st) p = Some b" and "0 < original" and "original \<le> 2 ^ 900"
    and "int (length b) \<le> 2 ^ 900"
  shows "size_accountant w i n f original p st =
           (Inr (original, int (length b)),
            st\<lparr>total_compressed_size := total_compressed_size st + int (length b),
               stdout := stdout st @
                 [FileName i n f,
                  FileSizes
                    (Finite (round_binary64 (round_binary64 (of_int original / 1024) / 1024)))
                    (Finite (round_binary64 (round_binary64 (of_int (int (length b)) / 1024) / 1024)))
                    (Finite (round_binary64
                       (round_binary64 (1 - round_binary64 (of_int (int (length b)) / of_int original)) * 100)))]\<rparr>)"
proof -
  have o: "0 \<le> original" using assms(3) by simp
  show ?thesis
    by (simp add: size_accountant_def getsize_def assms(1,2) Let_def print_def
          reduction_percent_value [OF _ assms(5,3)] megabytes_value [OF o assms(4)]
          megabytes_value [OF _ assms(5)])
qed

lemma summary_value:
  assumes "\<And>printed l. print_error w printed l = None"
    and "0 \<le> total_compressed_size st" and "total_compressed_size st \<le> total_original_size st"
    and "0 < total_original_size st" and "total_original_size st \<le> 2 ^ 900"
  shows "summary w out st =
           (None,
            st\<lparr>stdout := stdout st @
                 [Rule, CompressionComplete, Rule,
                  TotalOriginal (Finite (round_binary64
                     (round_binary64 (of_int (total_original_size st) / 1024) / 1024))),
                  TotalCompressed (Finite (round_binary64
                     (round_binary64 (of_int (total_compressed_size st) / 1024) / 1024))),
                  TotalSaved (Finite (round_binary64
                     (round_binary64
                        (of_int (total_original_size st - total_compressed_size st) / 1024) / 1024))),
                  OverallReduction (Finite (round_binary64
                     (round_binary64
                        (1 - round_binary64 (of_int (total_compressed_size st) /
                                             of_int (total_original_size st))) * 100))),
                  SavedTo out]\<rparr>)"
proof -
  have o: "0 \<le> total_original_size st" using assms(4) by simp
  have c: "total_compressed_size st \<le> 2 ^ 900" using assms(3,5) by simp
  have d: "0 \<le> total_original_size st - total_compressed_size st"
    "total_original_size st - total_compressed_size st \<le> 2 ^ 900"
    using assms(2,3,5) by simp_all
  show ?thesis
    by (simp add: summary_def print_value_def print_def assms(1)
          megabytes_value [OF o assms(5)] megabytes_value [OF assms(2) c]
          megabytes_value [OF d] reduction_percent_value [OF assms(2) c assms(4)])
qed

text \<open>
  C3, as the specification words it: for an original of 0 bytes the reduction is reported
  as undefined or zero and the file is not an Error result. On the code, in a folder with
  an empty \<open>empty.jpg\<close> and a good \<open>b.jpg\<close>, the empty file does not decode: it is an
  Error result, its error line is followed by the lines of the next file, and no
  reduction is reported for it.
\<close>

theorem zero_byte_original_counterexample:
  "fst zero_byte_run = Returned \<and>
   fst (snd zero_byte_run) =
     [(''empty.jpg'', Inl (Exn ''UnidentifiedImageError'' ''in/empty.jpg'')),
      (''b.jpg'', Inr (50, 4))] \<and>
   take 5 (stdout (snd (snd zero_byte_run))) =
     [Compressing 2 ''in'', OutputFolder ''in-compressed'', Settings 2000 85,
      FileError 1 2 ''empty.jpg'' (Exn ''UnidentifiedImageError'' ''in/empty.jpg''),
      FileName 2 2 ''b.jpg''] \<and>
   error_lines (stdout (snd (snd zero_byte_run))) =
     [(''empty.jpg'', Exn ''UnidentifiedImageError'' ''in/empty.jpg'')]"
proof -
  define img where "img = \<lparr>mode = ''RGB'', width = 500, height = 500, pixels = FromFile ''in/b.jpg''\<rparr>"
  define w where "w = sample_world [(''in'', [''empty.jpg'', ''b.jpg''])] [(''in/b.jpg'', img)]"
  define d where "d = sample_disk [(''in/empty.jpg'', []), (''in/b.jpg'', replicate 50 9)]"
  define E where "E = Exn ''UnidentifiedImageError'' ''in/empty.jpg''"
  let ?fs1 = "d\<lparr>dirs := dirs d \<union> set (path_ancestors ''in-compressed'')\<rparr>"
  have pr: "print_error w printed l = None" for printed l
    by (simp add: w_def sample_world_def)
  have 1: "makedirs w d ''in-compressed'' = Inr ?fs1"
    by (simp add: makedirs_def w_def d_def sample_world_def sample_disk_def)
  have 2: "os_listdir w fs ''in'' = Inr [''empty.jpg'', ''b.jpg'']" for fs
    by (simp add: w_def sample_world_def)
  have 3: "select_images [''empty.jpg'', ''b.jpg''] = [''empty.jpg'', ''b.jpg'']" by code_simp
  have 4: "path_join ''in'' ''empty.jpg'' = ''in/empty.jpg''"
    "path_join ''in'' ''b.jpg'' = ''in/b.jpg''"
    "output_filename ''b.jpg'' = ''b.jpg''"
    "path_join ''in-compressed'' ''b.jpg'' = ''in-compressed/b.jpg''" by code_simp+
  have 5: "Image_open w fs ''in/empty.jpg'' = Inl E" "Image_open w fs ''in/b.jpg'' = Inr img" for fs
    by (simp_all add: w_def E_def sample_world_def)
  have 6: "try_file w ''in'' out mw q i n ''empty.jpg'' st = (Inl E, st)" for out mw q i n st
    by (rule decode_failure) (simp only: 4 5)
  have 7: "color_normalizer w img = Inr img" "resizer w 2000 img = Inr img"
    by (simp_all add: color_normalizer_def resizer_def img_def)
  have j: "sample_jpeg img 85 = [255, 255, 255, 255]"
    unfolding img_def by code_simp
  have 8: "Image_save w fs img p ''JPEG'' 85 True = Written [255, 255, 255, 255]" for fs p
    using j by (simp add: w_def sample_world_def) (simp add: img_def)
  have 9: "files (disk st) ''in/b.jpg'' = Some (replicate 50 9) \<Longrightarrow>
           try_file w ''in'' ''in-compressed'' 2000 85 i n ''b.jpg'' st =
             size_accountant w i n ''b.jpg'' 50 ''in-compressed/b.jpg''
               (st\<lparr>total_original_size := total_original_size st + 50,
                    disk := write_file ''in-compressed/b.jpg'' (Some [255, 255, 255, 255]) (disk st)\<rparr>)"
    for i n st
    by (simp add: try_file_def pipeline_def encoder_def getsize_def Let_def 4 5 7 8)
  have 10: "files d ''in/b.jpg'' = Some (replicate 50 9)"
    by (simp add: d_def sample_disk_def)
  have "compress_images w d ''in'' None 2000 85 =
          (Returned, [(''empty.jpg'', Inl E), (''b.jpg'', Inr (50, 4))],
           \<lparr>disk = write_file ''in-compressed/b.jpg'' (Some [255, 255, 255, 255]) ?fs1,
              total_original_size = 50, total_compressed_size = 4,
              stdout = [Compressing 2 ''in'', OutputFolder ''in-compressed'', Settings 2000 85,
                 FileError 1 2 ''empty.jpg'' E, FileName 2 2 ''b.jpg'',
                 FileSizes (Finite (round_binary64 (round_binary64 (50 / 1024) / 1024)))
                   (Finite (round_binary64 (round_binary64 (4 / 1024) / 1024)))
                   (Finite (round_binary64 (round_binary64 (1 - round_binary64 (4 / 50)) * 100))),
                 Rule, CompressionComplete, Rule,
                 TotalOriginal (Finite (round_binary64 (round_binary64 (50 / 1024) / 1024))),
                 TotalCompressed (Finite (round_binary64 (round_binary64 (4 / 1024) / 1024))),
                 TotalSaved (Finite (round_binary64 (round_binary64 (46 / 1024) / 1024))),
                 OverallReduction
                   (Finite (round_binary64 (round_binary64 (1 - round_binary64 (4 / 50)) * 100))),
                 SavedTo ''in-compressed'']\<rparr>)"
    unfolding compress_images_def
    by (simp add: 1 2 3 6 9 10 Let_def header_printed [OF pr] error_isolator_def print_def pr
          size_accountant_value [OF pr] summary_value [OF pr] write_file_def
          initial_state_def outcome_of_def del: statements.simps)
  then show ?thesis
    unfolding zero_byte_run_def w_def [symmetric] d_def [symmetric] img_def [symmetric]
    by (simp add: E_def)
qed

text \<open>
  C3, amended: a file whose original size is 0 bytes always ends its \<open>try\<close> in an
  exception and is an Error result; nothing is printed for it but the error line of the
  handler, so no reduction is ever reported. Line 80 has no guard: whenever the accounting
  is reached with an original size of 0, it adds the compressed size to its total and
  raises \<open>ZeroDivisionError\<close> before any line is printed.
\<close>

theorem zero_byte_original_is_error:
  assumes "files (disk st) (path_join input_folder filename) = Some []"
  shows "(\<exists>e st1.
            try_file w input_folder output_folder max_width quality i n filename st = (Inl e, st1) \<and>
            stdout st1 = stdout st \<and>
            error_isolator w input_folder output_folder max_width quality i n filename st =
              (case print_error w (stdout st) (FileError i n filename e) of
                 None \<Rightarrow> (None, Inl e, st1\<lparr>stdout := stdout st @ [FileError i n filename e]\<rparr>)
               | Some raised \<Rightarrow> (Some raised, Inl e, st1))) \<and>
         (\<forall>p b s. files (disk s) p = Some b \<longrightarrow>
            size_accountant w i n filename 0 p s =
              (Inl (Exn ''ZeroDivisionError'' ''division by zero''),
               s\<lparr>total_compressed_size := total_compressed_size s + int (length b)\<rparr>))"
proof -
  let ?t = "try_file w input_folder output_folder max_width quality i n filename st"
  have "isl (fst ?t) \<and> stdout (snd ?t) = stdout st"
    using assms
    by (simp add: try_file_def Let_def getsize_def pipeline_zero_fails split: sum.splits)
  then obtain e st1 where t: "?t = (Inl e, st1)" and s: "stdout st1 = stdout st"
    by (cases ?t) (auto simp: isl_def)
  have "error_isolator w input_folder output_folder max_width quality i n filename st =
              (case print_error w (stdout st) (FileError i n filename e) of
                 None \<Rightarrow> (None, Inl e, st1\<lparr>stdout := stdout st @ [FileError i n filename e]\<rparr>)
               | Some raised \<Rightarrow> (Some raised, Inl e, st1))"
    by (simp add: error_isolator_def t print_def s split: option.splits)
  with t s show ?thesis by (simp add: size_accountant_zero_original)
qed

theorem zero_byte_original_is_error_witness:
  "error_isolator sample_photos_world ''in'' ''out'' 2000 85 1 1 ''void.jpg''
       (initial_state (sample_disk [(''in/void.jpg'', [])])) =
     (None, Inl (Exn ''UnidentifiedImageError'' ''in/void.jpg''),
      (initial_state (sample_disk [(''in/void.jpg'', [])]))
        \<lparr>stdout := [FileError 1 1 ''void.jpg'' (Exn ''UnidentifiedImageError'' ''in/void.jpg'')]\<rparr>) \<and>
   size_accountant sample_photos_world 1 1 ''void.jpg'' 0 ''out/void.jpg''
       (initial_state (sample_disk [(''out/void.jpg'', [255, 216])])) =
     (Inl (Exn ''ZeroDivisionError'' ''division by zero''),
      (initial_state (sample_disk [(''out/void.jpg'', [255, 216])]))\<lparr>total_compressed_size := 2\<rparr>)"
proof -
  define st where "st = initial_state (sample_disk [(''in/void.jpg'', [])])"
  define s where "s = initial_state (sample_disk [(''out/void.jpg'', [255, 216])])"
  define E where "E = Exn ''UnidentifiedImageError'' ''in/void.jpg''"
  have 4: "path_join ''in'' ''void.jpg'' = ''in/void.jpg''" by code_simp
  have a: "files (disk st) (path_join ''in'' ''void.jpg'') = Some []"
    by (simp add: 4 st_def initial_state_def sample_disk_def)
  have b: "files (disk s) ''out/void.jpg'' = Some [255, 216]"
    by (simp add: s_def initial_state_def sample_disk_def)
  have o: "Image_open sample_photos_world (disk st) (path_join ''in'' ''void.jpg'') = Inl E"
    by (simp add: 4 E_def sample_photos_world_def sample_world_def)
  have t: "try_file sample_photos_world ''in'' ''out'' 2000 85 1 1 ''void.jpg'' st = (Inl E, st)"
    using o by (rule decode_failure)
  have pr: "print_error sample_photos_world printed l = None" for printed l
    by (simp add: sample_photos_world_def sample_world_def)
  note T = zero_byte_original_is_error [OF a, of sample_photos_world "''out''" 2000 85 1 1]
  from T obtain e st1 where
    "try_file sample_photos_world ''in'' ''out'' 2000 85 1 1 ''void.jpg'' st = (Inl e, st1)"
    and e: "error_isolator sample_photos_world ''in'' ''out'' 2000 85 1 1 ''void.jpg'' st =
              (case print_error sample_photos_world (stdout st) (FileError 1 1 ''void.jpg'' e) of
                 None \<Rightarrow> (None, Inl e, st1\<lparr>stdout := stdout st @ [FileError 1 1 ''void.jpg'' e]\<rparr>)
               | Some raised \<Rightarrow> (Some raised, Inl e, st1))"
    by blast
  with t have "e = E" "st1 = st" by simp_all
  with e have first: "error_isolator sample_photos_world ''in'' ''out'' 2000 85 1 1 ''void.jpg'' st =
      (None, Inl E, st\<lparr>stdout := stdout st @ [FileError 1 1 ''void.jpg'' E]\<rparr>)"
    by (simp add: pr)
  from T b have second: "size_accountant sample_photos_world 1 1 ''void.jpg'' 0 ''out/void.jpg'' s =
      (Inl (Exn ''ZeroDivisionError'' ''division by zero''),
       s\<lparr>total_compressed_size := total_compressed_size s + int (length [255, 216 :: 8 word])\<rparr>)"
    by blast
  from first second show ?thesis
    unfolding st_def [symmetric] s_def [symmetric]
    by (simp add: E_def) (simp add: st_def s_def initial_state_def)
qed

section \<open>The Encoder: the output file\<close>

lemma size_accountant_success:
  assumes "size_accountant w i n f original p st = (Inr sizes, st1)"
  shows "disk st1 = disk st \<and> getsize (disk st) p = Inr (snd sizes) \<and> fst sizes = original"
  using assms
  by (auto simp: size_accountant_def print_def Let_def
      split: sum.splits prod.splits option.splits)

lemma success_trace:
  assumes "error_isolator w inp out mw q i n f st = (x, Inr sizes, st1)"
  shows "\<exists>img rgb small b.
           Image_open w (disk st) (path_join inp f) = Inr img \<and>
           color_normalizer w img = Inr rgb \<and> resizer w mw rgb = Inr small \<and>
           Image_save w (disk st) small (path_join out (output_filename f)) ''JPEG'' q True =
             Written b \<and>
           disk st1 = write_file (path_join out (output_filename f)) (Some b) (disk st) \<and>
           snd sizes = int (length b)"
proof -
  let ?p = "path_join out (output_filename f)"
  from assms have t: "try_file w inp out mw q i n f st = (Inr sizes, st1)"
    by (auto simp: error_isolator_def split: sum.splits prod.splits)
  then obtain img where o: "Image_open w (disk st) (path_join inp f) = Inr img"
    by (cases "Image_open w (disk st) (path_join inp f)") (auto simp: try_file_def Let_def)
  from t o obtain sz where g: "getsize (disk st) (path_join inp f) = Inr sz"
    by (cases "getsize (disk st) (path_join inp f)") (auto simp: try_file_def Let_def)
  let ?st = "st\<lparr>total_original_size := total_original_size st + sz\<rparr>"
  from t o g have p: "pipeline w out mw q i n f sz img ?st = (Inr sizes, st1)"
    by (simp add: try_file_def Let_def)
  then obtain rgb where c: "color_normalizer w img = Inr rgb"
    by (cases "color_normalizer w img") (auto simp: pipeline_def)
  from p c obtain small where r: "resizer w mw rgb = Inr small"
    by (cases "resizer w mw rgb") (auto simp: pipeline_def)
  from p c r obtain b where s: "Image_save w (disk st) small ?p ''JPEG'' q True = Written b"
    by (cases "Image_save w (disk st) small ?p ''JPEG'' q True")
       (auto simp: pipeline_def encoder_def Let_def)
  let ?st2 = "?st\<lparr>disk := write_file ?p (Some b) (disk ?st)\<rparr>"
  from p c r s have a: "size_accountant w i n f sz ?p ?st2 = (Inr sizes, st1)"
    by (simp add: pipeline_def encoder_def Let_def)
  from size_accountant_success [OF a]
  have "disk st1 = write_file ?p (Some b) (disk st)" "snd sizes = int (length b)"
    by (simp_all add: getsize_def write_file_def)
  with o c r s show ?thesis by blast
qed

text \<open>
  C8: a successfully processed file is written to the output folder under the stem of its
  name with the extension \<open>.jpg\<close>, whatever its own extension was: the bytes at that
  path are those that \<open>img.save\<close> wrote for the decoded, normalised and resized image,
  and nothing else changes on the disk. When a later file with the same output name
  succeeds, the bytes that \<open>img.save\<close> wrote for it replace those of the first: of the
  two inputs one output file is left.
\<close>

theorem output_name_and_overwrite:
  assumes sel: "endswith_any filename image_extensions"
    and first: "error_isolator w input_folder output_folder max_width quality i n filename st =
                  (None, Inr sizes, st1)"
  shows "splitext (output_filename filename) = (fst (splitext filename), ''.jpg'') \<and>
         (\<exists>img rgb small b.
            Image_open w (disk st) (path_join input_folder filename) = Inr img \<and>
            color_normalizer w img = Inr rgb \<and> resizer w max_width rgb = Inr small \<and>
            Image_save w (disk st) small (path_join output_folder (output_filename filename))
              ''JPEG'' quality True = Written b \<and>
            files (disk st1) =
              (files (disk st))(path_join output_folder (output_filename filename) \<mapsto> b) \<and>
            dirs (disk st1) = dirs (disk st) \<and>
            snd sizes = int (length b)) \<and>
         (\<forall>other j sizes2 st2.
            output_filename other = output_filename filename \<and>
            error_isolator w input_folder output_folder max_width quality j n other st1 =
              (None, Inr sizes2, st2) \<longrightarrow>
            (\<exists>img2 rgb2 small2 b2.
               Image_open w (disk st1) (path_join input_folder other) = Inr img2 \<and>
               color_normalizer w img2 = Inr rgb2 \<and> resizer w max_width rgb2 = Inr small2 \<and>
               Image_save w (disk st1) small2
                 (path_join output_folder (output_filename filename))
                 ''JPEG'' quality True = Written b2 \<and>
               files (disk st2) =
                 (files (disk st))(path_join output_folder (output_filename filename) \<mapsto> b2) \<and>
               dirs (disk st2) = dirs (disk st) \<and>
               snd sizes2 = int (length b2)))"
proof (intro conjI allI impI)
  let ?p = "path_join output_folder (output_filename filename)"
  show "splitext (output_filename filename) = (fst (splitext filename), ''.jpg'')"
    unfolding output_filename_def using sel by (rule output_name_splits)
  from success_trace [OF first]
  obtain img rgb small b where 1:
    "Image_open w (disk st) (path_join input_folder filename) = Inr img"
    "color_normalizer w img = Inr rgb" "resizer w max_width rgb = Inr small"
    "Image_save w (disk st) small ?p ''JPEG'' quality True = Written b"
    and d1: "disk st1 = write_file ?p (Some b) (disk st)"
    and s1: "snd sizes = int (length b)" by blast
  from d1 have f1: "files (disk st1) = (files (disk st))(?p \<mapsto> b)"
    and dd1: "dirs (disk st1) = dirs (disk st)"
    by (simp_all add: write_file_def)
  from 1 f1 dd1 s1
  show "\<exists>img rgb small b.
            Image_open w (disk st) (path_join input_folder filename) = Inr img \<and>
            color_normalizer w img = Inr rgb \<and> resizer w max_width rgb = Inr small \<and>
            Image_save w (disk st) small ?p ''JPEG'' quality True = Written b \<and>
            files (disk st1) = (files (disk st))(?p \<mapsto> b) \<and>
            dirs (disk st1) = dirs (disk st) \<and>
            snd sizes = int (length b)" by blast
  fix other j sizes2 st2
  assume "output_filename other = output_filename filename \<and>
            error_isolator w input_folder output_folder max_width quality j n other st1 =
              (None, Inr sizes2, st2)"
  then have same: "output_filename other = output_filename filename"
    and second: "error_isolator w input_folder output_folder max_width quality j n other st1 =
              (None, Inr sizes2, st2)" by simp_all
  from success_trace [OF second] same
  obtain img2 rgb2 small2 b2 where 2:
    "Image_open w (disk st1) (path_join input_folder other) = Inr img2"
    "color_normalizer w img2 = Inr rgb2" "resizer w max_width rgb2 = Inr small2"
    "Image_save w (disk st1) small2 ?p ''JPEG'' quality True = Written b2"
    and d2: "disk st2 = write_file ?p (Some b2) (disk st1)"
    and s2: "snd sizes2 = int (length b2)" by auto
  from d2 f1 dd1 have f2: "files (disk st2) = (files (disk st))(?p \<mapsto> b2)"
    and dd2: "dirs (disk st2) = dirs (disk st)"
    by (simp_all add: write_file_def)
  from 2 f2 dd2 s2
  show "\<exists>img2 rgb2 small2 b2.
               Image_open w (disk st1) (path_join input_folder other) = Inr img2 \<and>
               color_normalizer w img2 = Inr rgb2 \<and> resizer w max_width rgb2 = Inr small2 \<and>
               Image_save w (disk st1) small2 ?p ''JPEG'' quality True = Written b2 \<and>
               files (disk st2) = (files (disk st))(?p \<mapsto> b2) \<and>
               dirs (disk st2) = dirs (disk st) \<and>
               snd sizes2 = int (length b2)" by blast
qed

lemma new_height_example: "new_height 2000 3000 2000 = Inr 1333"
  using new_height_value [of 2000 3000 2000] spec_resized_height_example
  by (simp add: spec_resized_height_def)

lemma sample_save:
  "Image_save (sample_world listings decoded) fs img p fmt q opt = Written b \<Longrightarrow>
   b = replicate (length b) 255"
  by (auto simp: sample_world_def sample_jpeg_def split: if_splits)

lemma pair_first_result: "fst pair_first = None \<and> fst (snd pair_first) = Inr (100, 24)"
proof -
  define w where "w = sample_pair_world"
  define img where "img = \<lparr>mode = ''RGBA'', width = 3000, height = 2000, pixels = FromFile ''in/photo.png''\<rparr>"
  define rgb where "rgb = \<lparr>mode = ''RGB'', width = 3000, height = 2000,
     pixels = Pasted (Canvas (255, 255, 255)) (FromFile ''in/photo.png'')
                (Some (Band (FromFile ''in/photo.png'') 3))\<rparr>"
  define small where "small = \<lparr>mode = ''RGB'', width = 2000, height = 1333,
     pixels = Resampled (pixels rgb) (2000, 1333) LANCZOS\<rparr>"
  have pr: "print_error w printed l = None" for printed l
    by (simp add: w_def sample_pair_world_def sample_world_def)
  have 1: "path_join ''in'' ''photo.png'' = ''in/photo.png''" by code_simp
  have 2: "output_filename ''photo.png'' = ''photo.jpg''" by code_simp
  have 3: "path_join ''out'' ''photo.jpg'' = ''out/photo.jpg''" by code_simp
  have 4: "Image_open w fs ''in/photo.png'' = Inr img" for fs
    by (simp add: w_def img_def sample_pair_world_def sample_world_def)
  have 5: "color_normalizer w img = Inr rgb"
    by (simp add: color_normalizer_def last_band_def w_def img_def rgb_def
          sample_pair_world_def sample_world_def)
  have 6: "resizer w 2000 rgb = Inr small"
    by (simp add: resizer_def new_height_example w_def rgb_def small_def
          sample_pair_world_def sample_world_def)
  have j: "length (sample_jpeg small 85) = 24"
    by (simp add: sample_jpeg_def small_def)
  have 7: "Image_save w fs small p ''JPEG'' 85 True = Written (sample_jpeg small 85)" for fs p
    by (simp add: w_def sample_pair_world_def sample_world_def) (simp add: small_def)
  have 8: "files sample_pair_disk ''in/photo.png'' = Some (replicate 100 7)"
    by (simp add: sample_pair_disk_def sample_disk_def)
  have "fst (error_isolator w ''in'' ''out'' 2000 85 1 2 ''photo.png'' (initial_state sample_pair_disk)) = None \<and>
        fst (snd (error_isolator w ''in'' ''out'' 2000 85 1 2 ''photo.png'' (initial_state sample_pair_disk))) =
          Inr (100, 24)"
    by (simp add: error_isolator_def try_file_def pipeline_def encoder_def getsize_def
          write_file_def initial_state_def Let_def 1 2 3 4 5 6 7 8 j
          size_accountant_value [OF pr])
  then show ?thesis by (simp add: pair_first_def w_def)
qed

lemma pair_second_result:
  assumes "files (disk st1) ''in/photo.jpg'' = Some (replicate 50 9)"
  shows "fst (error_isolator sample_pair_world ''in'' ''out'' 2000 85 2 2 ''photo.jpg'' st1) = None \<and>
         fst (snd (error_isolator sample_pair_world ''in'' ''out'' 2000 85 2 2 ''photo.jpg'' st1)) =
           Inr (50, 4)"
proof -
  define w where "w = sample_pair_world"
  define img where "img = \<lparr>mode = ''RGB'', width = 500, height = 500, pixels = FromFile ''in/photo.jpg''\<rparr>"
  have pr: "print_error w printed l = None" for printed l
    by (simp add: w_def sample_pair_world_def sample_world_def)
  have 1: "path_join ''in'' ''photo.jpg'' = ''in/photo.jpg''" by code_simp
  have 2: "output_filename ''photo.jpg'' = ''photo.jpg''" by code_simp
  have 3: "path_join ''out'' ''photo.jpg'' = ''out/photo.jpg''" by code_simp
  have 4: "Image_open w fs ''in/photo.jpg'' = Inr img" for fs
    by (simp add: w_def img_def sample_pair_world_def sample_world_def)
  have 5: "color_normalizer w img = Inr img" "resizer w 2000 img = Inr img"
    by (simp_all add: color_normalizer_def resizer_def img_def)
  have j: "length (sample_jpeg img 85) = 4"
    by (simp add: sample_jpeg_def img_def)
  have 7: "Image_save w fs img p ''JPEG'' 85 True = Written (sample_jpeg img 85)" for fs p
    by (simp add: w_def sample_pair_world_def sample_world_def) (simp add: img_def)
  have "fst (error_isolator w ''in'' ''out'' 2000 85 2 2 ''photo.jpg'' st1) = None \<and>
        fst (snd (error_isolator w ''in'' ''out'' 2000 85 2 2 ''photo.jpg'' st1)) = Inr (50, 4)"
    by (simp add: error_isolator_def try_file_def pipeline_def encoder_def getsize_def
          write_file_def Let_def 1 2 3 4 5 7 j assms size_accountant_value [OF pr])
  then show ?thesis by (simp add: w_def)
qed

theorem output_name_and_overwrite_witness:
  "splitext (output_filename ''photo.png'') = (''photo'', ''.jpg'') \<and>
   fst (snd pair_first) = Inr (100, 24) \<and> fst (snd pair_second) = Inr (50, 4) \<and>
   files (disk (snd (snd pair_first))) =
     (files sample_pair_disk)(''out/photo.jpg'' \<mapsto> replicate 24 255) \<and>
   files (disk (snd (snd pair_second))) =
     (files sample_pair_disk)(''out/photo.jpg'' \<mapsto> replicate 4 255)"
proof -
  define st0 where "st0 = initial_state sample_pair_disk"
  have d0: "disk st0 = sample_pair_disk" by (simp add: st0_def initial_state_def)
  have pr: "print_error sample_pair_world printed l = None" for printed l
    by (simp add: sample_pair_world_def sample_world_def)
  have sel: "endswith_any ''photo.png'' image_extensions" by code_simp
  have stem: "fst (splitext ''photo.png'') = ''photo''" by code_simp
  have 1: "path_join ''in'' ''photo.jpg'' = ''in/photo.jpg''" by code_simp
  have 2: "output_filename ''photo.jpg'' = ''photo.jpg''" by code_simp
  have 3: "path_join ''out'' ''photo.jpg'' = ''out/photo.jpg''" by code_simp
  have 4: "output_filename ''photo.png'' = ''photo.jpg''" by code_simp
  obtain st1 where first: "error_isolator sample_pair_world ''in'' ''out'' 2000 85 1 2 ''photo.png'' st0 =
      (None, Inr (100, 24), st1)"
    using pair_first_result by (cases pair_first) (auto simp: pair_first_def st0_def)
  then have s1: "snd (snd pair_first) = st1" by (simp add: pair_first_def st0_def)
  note T = output_name_and_overwrite [OF sel first]
  from T obtain small b where
    "Image_save sample_pair_world (disk st0) small (path_join ''out'' (output_filename ''photo.png''))
       ''JPEG'' 85 True = Written b"
    and f1: "files (disk st1) = (files (disk st0))(path_join ''out'' (output_filename ''photo.png'') \<mapsto> b)"
    and l1: "snd (100 :: int, 24 :: int) = int (length b)"
    by blast
  then have b: "b = replicate 24 255"
    using sample_save [of _ _ "disk st0" small _ _ 85 True b]
    by (simp add: sample_pair_world_def)
  have files1: "files (disk st1) = (files sample_pair_disk)(''out/photo.jpg'' \<mapsto> replicate 24 255)"
    using f1 by (simp add: b 3 4 d0)
  then have in1: "files (disk st1) ''in/photo.jpg'' = Some (replicate 50 9)"
    by (simp add: sample_pair_disk_def sample_disk_def)
  let ?e2 = "error_isolator sample_pair_world ''in'' ''out'' 2000 85 2 2 ''photo.jpg'' st1"
  have r2: "fst ?e2 = None \<and> fst (snd ?e2) = Inr (50, 4)"
    using in1 by (rule pair_second_result)
  then obtain st2 where second: "?e2 = (None, Inr (50, 4), st2)"
    by (cases ?e2) auto
  then have s2: "snd (snd pair_second) = st2" and p2: "fst (snd pair_second) = Inr (50, 4)"
    by (simp_all add: pair_second_def s1)
  from T have a: "splitext (output_filename ''photo.png'') = (fst (splitext ''photo.png''), ''.jpg'')"
    and c: "\<forall>other j sizes2 st2.
            output_filename other = output_filename ''photo.png'' \<and>
            error_isolator sample_pair_world ''in'' ''out'' 2000 85 j 2 other st1 = (None, Inr sizes2, st2) \<longrightarrow>
            (\<exists>img2 rgb2 small2 b2.
               Image_open sample_pair_world (disk st1) (path_join ''in'' other) = Inr img2 \<and>
               color_normalizer sample_pair_world img2 = Inr rgb2 \<and>
               resizer sample_pair_world 2000 rgb2 = Inr small2 \<and>
               Image_save sample_pair_world (disk st1) small2
                 (path_join ''out'' (output_filename ''photo.png''))
                 ''JPEG'' 85 True = Written b2 \<and>
               files (disk st2) =
                 (files (disk st0))(path_join ''out'' (output_filename ''photo.png'') \<mapsto> b2) \<and>
               dirs (disk st2) = dirs (disk st0) \<and>
               snd sizes2 = int (length b2))"
    by blast+
  have eq: "output_filename ''photo.jpg'' = output_filename ''photo.png''" by (simp only: 2 4)
  from c [THEN spec, THEN spec, THEN spec, THEN spec, THEN mp, OF conjI [OF eq second]]
  obtain small2 b2 where
    "Image_save sample_pair_world (disk st1) small2
       (path_join ''out'' (output_filename ''photo.png'')) ''JPEG'' 85 True = Written b2"
    and f2: "files (disk st2) = (files (disk st0))(path_join ''out'' (output_filename ''photo.png'') \<mapsto> b2)"
    and l2: "snd (50 :: int, 4 :: int) = int (length b2)"
    by blast
  then have b2: "b2 = replicate 4 255"
    using sample_save [of _ _ "disk st1" small2 _ _ 85 True b2]
    by (simp add: sample_pair_world_def)
  have files2: "files (disk st2) = (files sample_pair_disk)(''out/photo.jpg'' \<mapsto> replicate 4 255)"
    using f2 by (simp add: b2 3 4 d0)
  from a stem pair_first_result p2 files1 files2 s1 s2 show ?thesis
    by simp
qed

end
